(* ===== verification/Crank_Prelude.thy ===== *)
theory Crank_Prelude
  imports Complex_Main "HOL-Library.Word" "HOL-Library.AList"
begin

text \<open>
  Prelude of the Crank development: the Go types the components share, the errors of the
  program as one datatype, the pieces of the Go language and standard library the source
  uses (64-bit wrap-around, the ASCII string helpers of package strings), and the generic
  list lemmas the component proofs rest on.
\<close>

section \<open>Proof collection\<close>

text \<open>
  \<open>frame\<close> collects the equations that say which parts of a state an operation leaves alone.
\<close>

named_theorems frame

section \<open>Time and machine integers\<close>

text \<open>
  A \<open>time.Time\<close> is an instant in nanoseconds since the Unix epoch and a
  \<open>time.Duration\<close> is a count of nanoseconds. Go's \<open>int\<close>, \<open>int64\<close> and
  \<open>time.Duration\<close> are signed 64-bit: they are modelled by \<^typ>\<open>int\<close>, and every
  operation that can leave the range is followed by \<open>wrap64\<close>.
\<close>

type_synonym time = int
type_synonym dur = int

abbreviation Millisecond :: dur where "Millisecond \<equiv> 1000000"
abbreviation Second :: dur where "Second \<equiv> 1000000000"
abbreviation Minute :: dur where "Minute \<equiv> 60000000000"

definition wrap64 :: "int \<Rightarrow> int" where
  "wrap64 x = sint (word_of_int x :: 64 word)"

definition in64 :: "int \<Rightarrow> bool" where
  "in64 x \<longleftrightarrow> - (2 ^ 63) \<le> x \<and> x < 2 ^ 63"

lemma wrap64_id [simp]: "in64 x \<Longrightarrow> wrap64 x = x"
  by (simp add: wrap64_def in64_def sint_sbintrunc' signed_take_bit_int_eq_self)

lemma wrap64_range: "in64 (wrap64 x)"
  using sint_ge [of "word_of_int x :: 64 word"] sint_lt [of "word_of_int x :: 64 word"]
  by (simp add: wrap64_def in64_def)

lemma in64_small: "- 9223372036854775808 \<le> x \<Longrightarrow> x < 9223372036854775808 \<Longrightarrow> in64 x"
  by (simp add: in64_def)

text \<open>The zero \<open>time.Time\<close> of Go is 1 January of year 1, 00:00 UTC.\<close>

definition zeroTime :: time where
  "zeroTime = - 62135596800 * Second"

definition Unix :: "time \<Rightarrow> int" where
  "Unix t = t div Second"

lemma Unix_mono: "s \<le> t \<Longrightarrow> Unix s \<le> Unix t"
  by (simp add: Unix_def zdiv_mono1)

text \<open>
  Converting a \<open>float64\<close> to \<open>int\<close> truncates; outside the range the result depends on
  the platform and is the argument \<open>oob\<close>.
\<close>

definition trunc_rat :: "rat \<Rightarrow> int" where
  "trunc_rat r = (if r < 0 then - \<lfloor>- r\<rfloor> else \<lfloor>r\<rfloor>)"

definition int_of_float :: "(rat \<Rightarrow> int) \<Rightarrow> rat \<Rightarrow> int" where
  "int_of_float oob r = (if in64 (trunc_rat r) then trunc_rat r else oob r)"

section \<open>Go values\<close>

text \<open>
  A value of type \<open>interface{}\<close>. \<open>GMap\<close> is a \<open>map[string]interface{}\<close> as an
  association list; \<open>GOpaque\<close> is any other Go value (a struct, a pointer, a channel),
  which the program only hands on.
\<close>

datatype gval =
    GNil
  | GBool bool
  | GInt int
  | GFloat rat
  | GString string
  | GSlice "gval list"
  | GMap "(string \<times> gval) list"
  | GOpaque nat

section \<open>Errors\<close>

datatype ctx_error = Canceled | DeadlineExceeded

text \<open>
  The error values of the program, one constructor per message with the values the message
  carries. \<open>Wrapf msg e\<close> is \<open>fmt.Errorf("msg: %w", e)\<close>. \<open>UserError\<close> and
  \<open>UserWrap\<close> are errors of code outside the repository (workers, custom validators, the
  Redis client, the operating system).
\<close>

datatype (plugins only: size code) error =
    ErrCircuitOpen
  | CtxErr ctx_error
  | UserError nat
  | UserWrap nat error
  | Wrapf string error
  | InvalidQueueName string
  | EmptyWorkerClass
  | ArgsCountExceeds nat int
  | ClassNotInAllowlist string
  | ClassNotMatching string
  | PayloadSizeExceeds nat int
  | BrokerClosed
  | DeleteKeyRestricted string
  | GlobalClientNotInitialized
  | WorkerClassNotFound string
  | WorkerNotFoundLocal string error "error option"
  | WorkerNotFoundGlobal string "error option"
  | PanicInJob string string
  | ProcessorAlreadyStarted
  | MustBeBeforeStart string
  | EngineAlreadyStarted
  | ChainNotInitialized
  | NoBrokerConfigured
  | StatsMissing string
  | StatsInvalidType string
  | StatsNotAMap string
  | StatsQueueInvalidType string string
  | BrokerURLEmpty
  | BrokerKindRequired
  | NotImplemented string
  | UnsupportedBroker string
  | PathTraversal
  | PathEscapesWorkingDir
  | BrokerFieldRequired
  | ConfigURLEmpty string
  | UnknownBroker string
  | RedisURLEmpty
  | UseTLSWrongScheme
  | InvalidRedisURL string error

text \<open>\<open>errors.Unwrap\<close> and \<open>errors.Is\<close> on the error values above.\<close>

fun unwrap :: "error \<Rightarrow> error option" where
  "unwrap (UserWrap _ e) = Some e"
| "unwrap (Wrapf _ e) = Some e"
| "unwrap (WorkerNotFoundLocal _ e _) = Some e"
| "unwrap (WorkerNotFoundGlobal _ e) = e"
| "unwrap _ = None"

lemma unwrap_size: "unwrap e = Some e' \<Longrightarrow> size e' < size e"
  by (cases e) auto

function errors_Is :: "error \<Rightarrow> error \<Rightarrow> bool" where
  "errors_Is e t = (e = t \<or> (case unwrap e of None \<Rightarrow> False | Some e' \<Rightarrow> errors_Is e' t))"
  by pat_completeness auto
termination
  by (relation "measure (size \<circ> fst)") (auto dest: unwrap_size)

declare errors_Is.simps [simp del]

lemma errors_Is_refl [simp]: "errors_Is e e"
  by (simp add: errors_Is.simps)

lemma errors_Is_unwrapped: "unwrap e = None \<Longrightarrow> errors_Is e t \<longleftrightarrow> e = t"
  by (simp add: errors_Is.simps)

lemma errors_Is_step: "unwrap e = Some e' \<Longrightarrow> errors_Is e t \<longleftrightarrow> e = t \<or> errors_Is e' t"
  by (simp add: errors_Is.simps)

section \<open>Strings\<close>

text \<open>
  Go strings are byte sequences, as \<^typ>\<open>string\<close> is. \<open>ToLower\<close> and \<open>TrimSpace\<close> follow
  package strings on ASCII text.
\<close>

definition HasPrefix :: "string \<Rightarrow> string \<Rightarrow> bool" where
  "HasPrefix s p \<longleftrightarrow> take (length p) s = p"

definition lower_char :: "char \<Rightarrow> char" where
  "lower_char c = (if 65 \<le> (of_char c :: nat) \<and> (of_char c :: nat) \<le> 90
                   then char_of ((of_char c :: nat) + 32) else c)"

definition ToLower :: "string \<Rightarrow> string" where
  "ToLower = map lower_char"

definition is_space :: "char \<Rightarrow> bool" where
  "is_space c \<longleftrightarrow> (of_char c :: nat) \<in> {9, 10, 11, 12, 13, 32}"

definition TrimSpace :: "string \<Rightarrow> string" where
  "TrimSpace s = rev (dropWhile is_space (rev (dropWhile is_space s)))"

lemma dropWhile_hd_keeps: "xs = [] \<or> \<not> P (hd xs) \<Longrightarrow> dropWhile P xs = xs"
  by (cases xs) auto

lemma rev_dropWhile_rev_hd:
  "rev (dropWhile P (rev xs)) = [] \<or> hd (rev (dropWhile P (rev xs))) = hd xs"
  by (induction xs rule: rev_induct) (auto simp: hd_append)

lemma TrimSpace_idem [simp]: "TrimSpace (TrimSpace s) = TrimSpace s"
proof -
  let ?u = "dropWhile is_space s"
  let ?v = "rev (dropWhile is_space (rev ?u))"
  have "?v = [] \<or> \<not> is_space (hd ?v)"
    using rev_dropWhile_rev_hd [of is_space ?u] hd_dropWhile [of is_space s]
    by (metis dropWhile.simps(1) rev.simps(1))
  then have "dropWhile is_space ?v = ?v" by (rule dropWhile_hd_keeps)
  then show ?thesis by (simp add: TrimSpace_def)
qed

section \<open>Lists\<close>

text \<open>
  \<open>remove_first P xs\<close> is the Go loop that deletes the first element with property \<open>P\<close>:
  \<^verbatim>\<open>for i, e := range xs { if P(e) { xs = append(xs[:i], xs[i+1:]...); return } }\<close>.
\<close>

fun remove_first :: "('a \<Rightarrow> bool) \<Rightarrow> 'a list \<Rightarrow> 'a list" where
  "remove_first P [] = []"
| "remove_first P (x # xs) = (if P x then xs else x # remove_first P xs)"

lemma set_remove_first: "set (remove_first P xs) \<subseteq> set xs"
  by (induction xs) auto

lemma remove_first_keeps: "x \<in> set xs \<Longrightarrow> \<not> P x \<Longrightarrow> x \<in> set (remove_first P xs)"
  by (induction xs) auto

lemma remove_first_absent: "\<forall>x \<in> set xs. \<not> P x \<Longrightarrow> remove_first P xs = xs"
  by (induction xs) auto

lemma length_remove_first:
  "length (remove_first P xs) = (if \<exists>x \<in> set xs. P x then length xs - 1 else length xs)"
  by (induction xs) (auto, metis Suc_pred length_pos_if_in_set One_nat_def)

lemma distinct_remove_first: "distinct (map f xs) \<Longrightarrow> distinct (map f (remove_first P xs))"
  by (induction xs) (use set_remove_first in fastforce)+

lemma remove_first_distinct_key:
  "distinct (map f xs) \<Longrightarrow> set (remove_first (\<lambda>x. f x = k) xs) = {x \<in> set xs. f x \<noteq> k}"
  by (induction xs) (auto simp: image_iff)

lemma dropWhile_sorted_filter:
  "sorted xs \<Longrightarrow> dropWhile (\<lambda>x. x < c) xs = filter (\<lambda>x. c \<le> x) xs" for c :: "'a :: linorder"
  by (induction xs) (auto intro!: filter_True [symmetric])

lemma find_SomeD: "List.find P xs = Some x \<Longrightarrow> x \<in> set xs \<and> P x"
  by (auto simp: find_Some_iff)

end
