(* ===== verification/Breaker.thy ===== *)
theory Breaker
  imports Crank_Prelude
begin

text \<open>
  The circuit breaker of \<^verbatim>\<open>internal/queue/breaker.go\<close>: one automaton per job class, kept in
  a map of bounded size. Every exported method of the Go type takes the mutex for its whole
  body, so a method is one atomic function on \<open>CircuitBreaker\<close>. A method that reads the
  clock takes the reading as the argument \<open>now\<close>; the order in which Go's \<open>range\<close> visits
  the class map is unspecified, so \<open>getOrCreate\<close> takes it as an argument too.
\<close>

section \<open>State\<close>

datatype breakerState = stateClosed | stateOpen | stateHalfOpen

record classState =
  state :: breakerState
  failureTimes :: "time list"
  openUntil :: time
  halfOpenProbeUsed :: bool

definition maxBreakerClasses :: nat where
  "maxBreakerClasses = 10000"

text \<open>
  \<open>classes\<close> is the Go map as an association list. \<open>sentinel\<close> is the package variable
  \<open>sentinelDenied\<close>, kept beside the breaker that uses it: \<open>Allow\<close> may write through the
  pointer it gets from \<open>getOrCreate\<close>.
\<close>

record CircuitBreaker =
  failureThreshold :: int
  window :: dur
  resetTimeout :: dur
  classes :: "(string \<times> classState) list"
  sentinel :: classState

record BreakerConfig =
  FailureThreshold :: int
  Window :: dur
  ResetTimeout :: dur

text \<open>1 January 9999, 00:00 UTC, is 253370764800 seconds after the epoch.\<close>

definition sentinelDenied :: classState where
  "sentinelDenied = \<lparr>state = stateOpen, failureTimes = [],
     openUntil = 253370764800 * Second, halfOpenProbeUsed = False\<rparr>"

definition NewCircuitBreaker :: "BreakerConfig \<Rightarrow> CircuitBreaker" where
  "NewCircuitBreaker cfg =
     \<lparr>failureThreshold = (if FailureThreshold cfg \<le> 0 then 5 else FailureThreshold cfg),
      window = (if Window cfg \<le> 0 then Minute else Window cfg),
      resetTimeout = (if ResetTimeout cfg \<le> 0 then 60 * Second else ResetTimeout cfg),
      classes = [], sentinel = sentinelDenied\<rparr>"

section \<open>getOrCreate\<close>

text \<open>
  The three eviction passes. \<open>ord i ks\<close> is the order in which the \<open>i\<close>-th \<open>range\<close> loop
  visits the keys \<open>ks\<close>.
\<close>

type_synonym map_order = "nat \<Rightarrow> string list \<Rightarrow> string list"

definition newClassState :: classState where
  "newClassState = \<lparr>state = stateClosed, failureTimes = [], openUntil = zeroTime,
     halfOpenProbeUsed = False\<rparr>"

definition evict_clean :: "(string \<times> classState) list \<Rightarrow> string list \<Rightarrow> string option" where
  "evict_clean cs ks = List.find (\<lambda>k. case map_of cs k of None \<Rightarrow> False
     | Some v \<Rightarrow> state v = stateClosed \<and> failureTimes v = []) ks"

definition evict_closed :: "(string \<times> classState) list \<Rightarrow> string list \<Rightarrow> string option" where
  "evict_closed cs ks = List.find (\<lambda>k. case map_of cs k of None \<Rightarrow> False
     | Some v \<Rightarrow> state v = stateClosed) ks"

text \<open>The accumulator is \<open>None\<close> while the Go variable \<open>first\<close> is true.\<close>

fun oldest_scan ::
  "(string \<times> classState) list \<Rightarrow> string list \<Rightarrow> (string \<times> time) option \<Rightarrow> (string \<times> time) option"
  where
  "oldest_scan cs [] acc = acc"
| "oldest_scan cs (k # ks) acc =
     (case map_of cs k of
        None \<Rightarrow> oldest_scan cs ks acc
      | Some v \<Rightarrow>
          (case acc of
             None \<Rightarrow> oldest_scan cs ks (Some (k, openUntil v))
           | Some (ok, ot) \<Rightarrow>
               oldest_scan cs ks (if openUntil v < ot then Some (k, openUntil v) else Some (ok, ot))))"

definition evict_oldest :: "(string \<times> classState) list \<Rightarrow> string list \<Rightarrow> string option" where
  "evict_oldest cs ks = (case oldest_scan cs ks None of
      None \<Rightarrow> None
    | Some (k, _) \<Rightarrow> if k \<noteq> [] then Some k else None)"

definition evict :: "map_order \<Rightarrow> (string \<times> classState) list \<Rightarrow> string option" where
  "evict ord cs =
     (let ks = map fst cs in
      case evict_clean cs (ord 0 ks) of
        Some k \<Rightarrow> Some k
      | None \<Rightarrow>
          (case evict_closed cs (ord 1 ks) of
             Some k \<Rightarrow> Some k
           | None \<Rightarrow> evict_oldest cs (ord 2 ks)))"

text \<open>
  The result says which \<open>classState\<close> the returned pointer denotes: \<open>True\<close> for the
  sentinel, \<open>False\<close> for the entry of \<open>class\<close> in the map.
\<close>

definition getOrCreate :: "map_order \<Rightarrow> string \<Rightarrow> CircuitBreaker \<Rightarrow> bool \<times> CircuitBreaker" where
  "getOrCreate ord class b =
     (case map_of (classes b) class of
        Some _ \<Rightarrow> (False, b)
      | None \<Rightarrow>
          if maxBreakerClasses \<le> length (classes b) then
            (case evict ord (classes b) of
               None \<Rightarrow> (True, b)
             | Some k \<Rightarrow>
                 (False, b\<lparr>classes := AList.update class newClassState (AList.delete k (classes b))\<rparr>))
          else (False, b\<lparr>classes := AList.update class newClassState (classes b)\<rparr>))"

text \<open>Reading and writing through the pointer \<open>getOrCreate\<close> returned.\<close>

definition deref :: "bool \<Rightarrow> string \<Rightarrow> CircuitBreaker \<Rightarrow> classState" where
  "deref sen class b =
     (if sen then sentinel b
      else case map_of (classes b) class of None \<Rightarrow> newClassState | Some s \<Rightarrow> s)"

definition store :: "bool \<Rightarrow> string \<Rightarrow> classState \<Rightarrow> CircuitBreaker \<Rightarrow> CircuitBreaker" where
  "store sen class s b =
     (if sen then b\<lparr>sentinel := s\<rparr> else b\<lparr>classes := AList.update class s (classes b)\<rparr>)"

section \<open>The methods\<close>

definition trimWindow :: "time \<Rightarrow> dur \<Rightarrow> classState \<Rightarrow> classState" where
  "trimWindow now win s =
     s\<lparr>failureTimes := dropWhile (\<lambda>t. t < now + - win) (failureTimes s)\<rparr>"

text \<open>The body of \<open>Allow\<close> on the class entry: the answer and the updated entry.\<close>

definition allow_entry :: "time \<Rightarrow> classState \<Rightarrow> bool \<times> classState" where
  "allow_entry now s =
     (if state s = stateOpen \<and> now < openUntil s then (False, s)
      else
        let s1 = (if state s = stateOpen
                  then s\<lparr>state := stateHalfOpen, halfOpenProbeUsed := False\<rparr> else s)
        in if state s1 = stateHalfOpen then
             (if halfOpenProbeUsed s1 then (False, s1)
              else (True, s1\<lparr>halfOpenProbeUsed := True\<rparr>))
           else (True, s1))"

definition Allow :: "map_order \<Rightarrow> time \<Rightarrow> string \<Rightarrow> CircuitBreaker \<Rightarrow> bool \<times> CircuitBreaker" where
  "Allow ord now class b =
     (let (sen, b1) = getOrCreate ord class b;
          (ok, s) = allow_entry now (deref sen class b1)
      in (ok, store sen class s b1))"

definition success_entry :: "classState \<Rightarrow> classState" where
  "success_entry s =
     (if state s = stateHalfOpen
      then s\<lparr>state := stateClosed, failureTimes := [], halfOpenProbeUsed := False\<rparr>
      else if state s = stateClosed then s\<lparr>failureTimes := []\<rparr>
      else s)"

definition RecordSuccess :: "map_order \<Rightarrow> string \<Rightarrow> CircuitBreaker \<Rightarrow> CircuitBreaker" where
  "RecordSuccess ord class b =
     (let (sen, b1) = getOrCreate ord class b
      in if sen then b1 else store sen class (success_entry (deref sen class b1)) b1)"

text \<open>
  The body of \<open>RecordFailure\<close> on the class entry. \<open>cap_failures\<close> is the slice cap
  between the append and the threshold test. With a threshold of \<open>2 ^ 62\<close> or more the product wraps and
  Go panics on the slice bounds; the entry it leaves behind is the one given here, and the theorems on
  tripping assume a threshold below \<open>2 ^ 62\<close>.
\<close>

definition cap_failures :: "int \<Rightarrow> time list \<Rightarrow> time list" where
  "cap_failures thr fs =
     (if wrap64 (thr * 2) < int (length fs) then drop (nat (int (length fs) - thr)) fs else fs)"

definition failure_entry :: "int \<Rightarrow> dur \<Rightarrow> dur \<Rightarrow> time \<Rightarrow> classState \<Rightarrow> classState" where
  "failure_entry thr win reset now s =
     (if state s = stateHalfOpen
      then s\<lparr>state := stateOpen, openUntil := now + reset, halfOpenProbeUsed := False\<rparr>
      else if state s = stateClosed then
        (let s1 = trimWindow now win s;
             s2 = s1\<lparr>failureTimes := cap_failures thr (failureTimes s1 @ [now])\<rparr>
         in if thr \<le> int (length (failureTimes s2))
            then s2\<lparr>state := stateOpen, openUntil := now + reset, failureTimes := []\<rparr>
            else s2)
      else s)"

definition RecordFailure :: "map_order \<Rightarrow> time \<Rightarrow> string \<Rightarrow> CircuitBreaker \<Rightarrow> CircuitBreaker" where
  "RecordFailure ord now class b =
     (let (sen, b1) = getOrCreate ord class b
      in if sen then b1
         else store sen class
           (failure_entry (failureThreshold b1) (window b1) (resetTimeout b1) now (deref sen class b1)) b1)"

definition IsOpen :: "time \<Rightarrow> string \<Rightarrow> CircuitBreaker \<Rightarrow> bool" where
  "IsOpen now class b =
     (case map_of (classes b) class of
        None \<Rightarrow> False
      | Some s \<Rightarrow> if state s \<noteq> stateOpen then False else now < openUntil s)"

section \<open>Sequences of calls\<close>

text \<open>
  A call of one of the three mutating methods, with its class and its clock reading; \<open>run\<close>
  executes calls in the order in which they took the mutex. \<open>ords i\<close> is the map order
  used by the \<open>i\<close>-th call counted from the end of the sequence.
\<close>

datatype breaker_call = CAllow time | CSuccess | CFailure time

definition call ::
  "map_order \<Rightarrow> string \<times> breaker_call \<Rightarrow> CircuitBreaker \<Rightarrow> CircuitBreaker" where
  "call ord x b = (case snd x of
      CAllow now \<Rightarrow> snd (Allow ord now (fst x) b)
    | CSuccess \<Rightarrow> RecordSuccess ord (fst x) b
    | CFailure now \<Rightarrow> RecordFailure ord now (fst x) b)"

fun run :: "(nat \<Rightarrow> map_order) \<Rightarrow> (string \<times> breaker_call) list \<Rightarrow> CircuitBreaker \<Rightarrow> CircuitBreaker"
  where
  "run ords [] b = b"
| "run ords (x # xs) b = run ords xs (call (ords (length xs)) x b)"

text \<open>
  The reference automaton of one class: what a sequence of calls for that class alone does
  to its entry, with no map around it.
\<close>

definition call_entry :: "int \<Rightarrow> dur \<Rightarrow> dur \<Rightarrow> breaker_call \<Rightarrow> classState \<Rightarrow> classState" where
  "call_entry thr win reset x s = (case x of
      CAllow now \<Rightarrow> snd (allow_entry now s)
    | CSuccess \<Rightarrow> success_entry s
    | CFailure now \<Rightarrow> failure_entry thr win reset now s)"

definition run_entry :: "int \<Rightarrow> dur \<Rightarrow> dur \<Rightarrow> breaker_call list \<Rightarrow> classState \<Rightarrow> classState" where
  "run_entry thr win reset xs s = fold (call_entry thr win reset) xs s"

definition entry :: "CircuitBreaker \<Rightarrow> string \<Rightarrow> classState" where
  "entry b class = deref False class b"

definition calls_of :: "string \<Rightarrow> (string \<times> breaker_call) list \<Rightarrow> breaker_call list" where
  "calls_of class xs = map snd (filter (\<lambda>x. fst x = class) xs)"

section \<open>The invariant\<close>

definition class_inv :: "int \<Rightarrow> classState \<Rightarrow> bool" where
  "class_inv thr s \<longleftrightarrow>
     (state s = stateClosed \<longrightarrow> int (length (failureTimes s)) < thr) \<and>
     (state s \<noteq> stateClosed \<longrightarrow> failureTimes s = []) \<and>
     (halfOpenProbeUsed s \<longrightarrow> state s = stateHalfOpen)"

definition breaker_inv :: "CircuitBreaker \<Rightarrow> bool" where
  "breaker_inv b \<longleftrightarrow>
     0 < failureThreshold b \<and> 0 < window b \<and> 0 < resetTimeout b \<and>
     distinct (map fst (classes b)) \<and> length (classes b) \<le> maxBreakerClasses \<and>
     (\<forall>k s. map_of (classes b) k = Some s \<longrightarrow> class_inv (failureThreshold b) s)"

text \<open>Go's \<open>range\<close> over a map visits exactly the keys of the map.\<close>

definition visits_all :: "map_order \<Rightarrow> bool" where
  "visits_all ord \<longleftrightarrow> (\<forall>i ks. set (ord i ks) = set ks)"

section \<open>Vocabulary of the properties\<close>

text \<open>The times of the failures among the calls of one class, in order.\<close>

definition failures :: "breaker_call list \<Rightarrow> time list" where
  "failures xs = concat (map (\<lambda>x. case x of CFailure t \<Rightarrow> [t] | _ \<Rightarrow> []) xs)"

text \<open>A history is sparse when no failure completes \<open>thr\<close> failures within one window.\<close>

fun sparse :: "int \<Rightarrow> dur \<Rightarrow> time list \<Rightarrow> breaker_call list \<Rightarrow> bool" where
  "sparse thr win past [] = True"
| "sparse thr win past (CFailure t # xs) =
     (int (length (filter (\<lambda>u. t - win \<le> u) past)) + 1 < thr \<and> (\<forall>u \<in> set past. u \<le> t) \<and>
      sparse thr win (past @ [t]) xs)"
| "sparse thr win past (_ # xs) = sparse thr win past xs"

text \<open>
  The probe. \<open>allow_answers\<close> is what a sequence of \<open>Allow\<close> calls for one class
  answers, with no outcome recorded in between.
\<close>

fun allow_answers :: "(nat \<Rightarrow> map_order) \<Rightarrow> string \<Rightarrow> time list \<Rightarrow> CircuitBreaker \<Rightarrow> bool list" where
  "allow_answers ords c [] b = []"
| "allow_answers ords c (t # ts) b =
     (let (ok, b') = Allow (ords (length ts)) t c b in ok # allow_answers ords c ts b')"

text \<open>The order in which the eviction passes prefer victims.\<close>

definition evict_rank :: "classState \<Rightarrow> nat" where
  "evict_rank v = (if state v \<noteq> stateClosed then 2 else if failureTimes v \<noteq> [] then 1 else 0)"

text \<open>Sample breakers: a small configuration, and a map filled to capacity.\<close>

abbreviation demo_cfg :: BreakerConfig where
  "demo_cfg \<equiv> \<lparr>FailureThreshold = 2, Window = 10, ResetTimeout = 5\<rparr>"

definition full_demo :: CircuitBreaker where
  "full_demo = (NewCircuitBreaker demo_cfg)
     \<lparr>classes := map (\<lambda>i. (replicate i (CHR ''x''), newClassState)) [0..<maxBreakerClasses]\<rparr>"

section \<open>Library of the breaker\<close>

lemma alist_card: "distinct (map fst al) \<Longrightarrow> length al = card (dom (map_of al))"
  by (metis distinct_card dom_map_of_conv_image_fst length_map set_map)

lemma length_alist_update:
  assumes "distinct (map fst al)"
  shows "length (AList.update k v al) =
    (if map_of al k = None then Suc (length al) else length al)"
proof -
  have "length (AList.update k v al) = card (insert k (dom (map_of al)))"
    using assms by (simp add: alist_card distinct_update update_conv')
  also have "\<dots> = (if k \<in> dom (map_of al) then card (dom (map_of al)) else Suc (card (dom (map_of al))))"
    by (simp add: insert_absorb finite_dom_map_of)
  finally show ?thesis using assms by (auto simp: alist_card domIff)
qed

lemma length_alist_delete:
  assumes "distinct (map fst al)" and "map_of al k \<noteq> None"
  shows "Suc (length (AList.delete k al)) = length al"
proof -
  have "Suc (card (dom (map_of al) - {k})) = card (dom (map_of al))"
    using assms(2) by (intro card_Suc_Diff1) (auto simp: finite_dom_map_of)
  moreover have "dom (map_of (AList.delete k al)) = dom (map_of al) - {k}"
    by (auto simp: delete_conv')
  ultimately show ?thesis
    using assms(1) by (simp add: alist_card distinct_delete)
qed

lemmas alist_ops = update_conv' delete_conv' distinct_update distinct_delete
  length_alist_update

lemma evict_clean_SomeD:
  "evict_clean cs ks = Some k \<Longrightarrow>
     k \<in> set ks \<and> (\<exists>v. map_of cs k = Some v \<and> state v = stateClosed \<and> failureTimes v = [])"
  unfolding evict_clean_def by (drule find_SomeD) (auto split: option.splits)

lemma evict_closed_SomeD:
  "evict_closed cs ks = Some k \<Longrightarrow>
     k \<in> set ks \<and> (\<exists>v. map_of cs k = Some v \<and> state v = stateClosed)"
  unfolding evict_closed_def by (drule find_SomeD) (auto split: option.splits)

lemma evict_clean_None:
  "evict_clean cs ks = None \<longleftrightarrow>
     (\<forall>k \<in> set ks. \<forall>v. map_of cs k = Some v \<longrightarrow> \<not> (state v = stateClosed \<and> failureTimes v = []))"
  unfolding evict_clean_def find_None_iff by (auto split: option.splits)

lemma evict_closed_None:
  "evict_closed cs ks = None \<longleftrightarrow>
     (\<forall>k \<in> set ks. \<forall>v. map_of cs k = Some v \<longrightarrow> state v \<noteq> stateClosed)"
  unfolding evict_closed_def find_None_iff by (auto split: option.splits)

lemma oldest_scan_spec:
  assumes "oldest_scan cs ks acc = Some (k, t)"
    and "\<And>k0 t0. acc = Some (k0, t0) \<Longrightarrow> \<exists>v. map_of cs k0 = Some v \<and> openUntil v = t0"
  shows "(\<exists>v. map_of cs k = Some v \<and> openUntil v = t) \<and>
         (\<forall>k' v'. k' \<in> set ks \<longrightarrow> map_of cs k' = Some v' \<longrightarrow> t \<le> openUntil v') \<and>
         (\<forall>k0 t0. acc = Some (k0, t0) \<longrightarrow> t \<le> t0)"
  using assms
proof (induction cs ks acc rule: oldest_scan.induct)
  case (1 cs acc)
  then show ?case by auto
next
  case (2 cs k1 ks acc)
  show ?case
  proof (cases "map_of cs k1")
    case None
    with 2 show ?thesis by auto
  next
    case (Some v)
    show ?thesis
    proof (cases acc)
      case None
      with 2 Some show ?thesis by auto
    next
      case (Some a)
      obtain ok ot where a: "a = (ok, ot)" by (cases a)
      let ?acc = "if openUntil v < ot then Some (k1, openUntil v) else Some (ok, ot)"
      have pre: "oldest_scan cs ks ?acc = Some (k, t)"
        using 2(4) \<open>map_of cs k1 = Some v\<close> Some a by simp
      have "\<exists>w. map_of cs k0 = Some w \<and> openUntil w = t0" if "?acc = Some (k0, t0)" for k0 t0
        using that 2(5) [of ok ot] \<open>map_of cs k1 = Some v\<close> Some a by (auto split: if_splits)
      from 2(3) [OF \<open>map_of cs k1 = Some v\<close> Some a [symmetric] pre this]
      show ?thesis using \<open>map_of cs k1 = Some v\<close> Some a by (auto split: if_splits)
    qed
  qed
qed

lemma evict_oldest_SomeD:
  assumes "evict_oldest cs ks = Some k"
  shows "k \<noteq> [] \<and> (\<exists>v. map_of cs k = Some v \<and>
           (\<forall>k' v'. k' \<in> set ks \<longrightarrow> map_of cs k' = Some v' \<longrightarrow> openUntil v \<le> openUntil v'))"
  using assms oldest_scan_spec [of cs ks None k]
  by (auto simp: evict_oldest_def split: option.splits if_splits)

lemma evict_SomeD: "evict ord cs = Some k \<Longrightarrow> \<exists>v. map_of cs k = Some v"
  by (auto simp: evict_def Let_def split: option.splits
      dest: evict_clean_SomeD evict_closed_SomeD evict_oldest_SomeD)

text \<open>What \<open>getOrCreate\<close> does, case by case.\<close>

lemma getOrCreate_cases:
  obtains (present) s where "map_of (classes b) class = Some s" "getOrCreate ord class b = (False, b)"
  | (denied) "map_of (classes b) class = None" "maxBreakerClasses \<le> length (classes b)"
      "evict ord (classes b) = None" "getOrCreate ord class b = (True, b)"
  | (evicted) k where "map_of (classes b) class = None" "maxBreakerClasses \<le> length (classes b)"
      "evict ord (classes b) = Some k"
      "getOrCreate ord class b =
         (False, b\<lparr>classes := AList.update class newClassState (AList.delete k (classes b))\<rparr>)"
  | (created) "map_of (classes b) class = None" "length (classes b) < maxBreakerClasses"
      "getOrCreate ord class b = (False, b\<lparr>classes := AList.update class newClassState (classes b)\<rparr>)"
  by (cases "map_of (classes b) class"; cases "maxBreakerClasses \<le> length (classes b)";
      cases "evict ord (classes b)") (auto simp: getOrCreate_def)

lemma class_inv_new: "0 < thr \<Longrightarrow> class_inv thr newClassState"
  by (simp add: class_inv_def newClassState_def)

lemma getOrCreate_inv:
  assumes "breaker_inv b" and g: "getOrCreate ord class b = (sen, b')"
  shows "breaker_inv b' \<and> (\<not> sen \<longrightarrow> map_of (classes b') class \<noteq> None)"
proof (cases rule: getOrCreate_cases [of b "class" ord])
  case (evicted k)
  from evict_SomeD [OF evicted(3)] have "map_of (classes b) k \<noteq> None" by auto
  then have "Suc (length (AList.delete k (classes b))) \<le> maxBreakerClasses"
    using assms(1) by (simp add: length_alist_delete breaker_inv_def)
  with evicted assms show ?thesis
    by (auto simp: breaker_inv_def alist_ops class_inv_new split: if_splits)
qed (use assms in \<open>auto simp: breaker_inv_def alist_ops class_inv_new split: if_splits\<close>)

lemma store_inv:
  assumes "breaker_inv b" and "\<not> sen \<longrightarrow> map_of (classes b) class \<noteq> None"
    and "class_inv (failureThreshold b) s"
  shows "breaker_inv (store sen class s b)"
  using assms
  by (auto simp: breaker_inv_def store_def alist_ops simp del: map_of_eq_Some_iff split: if_splits)

lemma deref_inv: "breaker_inv b \<Longrightarrow> \<not> sen \<Longrightarrow> class_inv (failureThreshold b) (deref sen class b)"
  by (auto simp: deref_def breaker_inv_def class_inv_new split: option.splits)

lemma allow_entry_inv: "class_inv thr s \<Longrightarrow> class_inv thr (snd (allow_entry now s))"
  by (auto simp: allow_entry_def class_inv_def Let_def)

lemma success_entry_inv: "0 < thr \<Longrightarrow> class_inv thr s \<Longrightarrow> class_inv thr (success_entry s)"
  by (auto simp: success_entry_def class_inv_def)

lemma trimWindow_simps [simp]:
  "state (trimWindow now win s) = state s"
  "openUntil (trimWindow now win s) = openUntil s"
  "halfOpenProbeUsed (trimWindow now win s) = halfOpenProbeUsed s"
  "failureTimes (trimWindow now win s) = dropWhile (\<lambda>t. t < now - win) (failureTimes s)"
  by (simp_all add: trimWindow_def)

lemma failure_entry_inv:
  "0 < thr \<Longrightarrow> class_inv thr s \<Longrightarrow> class_inv thr (failure_entry thr win reset now s)"
  by (auto simp: failure_entry_def class_inv_def Let_def)

lemma call_entry_inv:
  "0 < thr \<Longrightarrow> class_inv thr s \<Longrightarrow> class_inv thr (call_entry thr win reset x s)"
  by (cases x) (simp_all add: call_entry_def allow_entry_inv success_entry_inv failure_entry_inv)

text \<open>
  A call is \<open>getOrCreate\<close> followed by the entry automaton through the returned pointer;
  only \<open>Allow\<close> writes through the sentinel.
\<close>

lemma call_alt:
  "call ord (class, x) b =
     (let (sen, b1) = getOrCreate ord class b
      in if sen \<and> (\<forall>now. x \<noteq> CAllow now) then b1
         else store sen class
           (call_entry (failureThreshold b1) (window b1) (resetTimeout b1) x (deref sen class b1)) b1)"
  by (cases x)
    (auto simp: call_def call_entry_def Allow_def RecordSuccess_def RecordFailure_def Let_def
      split: prod.splits)

lemma getOrCreate_params [frame]:
  "getOrCreate ord class b = (sen, b') \<Longrightarrow>
     failureThreshold b' = failureThreshold b \<and> window b' = window b \<and>
     resetTimeout b' = resetTimeout b \<and> sentinel b' = sentinel b"
  by (cases rule: getOrCreate_cases [of b "class" ord]) auto

lemma store_params [simp]:
  "failureThreshold (store sen class s b) = failureThreshold b"
  "window (store sen class s b) = window b"
  "resetTimeout (store sen class s b) = resetTimeout b"
  by (simp_all add: store_def)

lemma call_params [simp]:
  "failureThreshold (call ord x b) = failureThreshold b"
  "window (call ord x b) = window b"
  "resetTimeout (call ord x b) = resetTimeout b"
  by (cases x; cases "getOrCreate ord (fst x) b"; force simp: call_alt Let_def dest: getOrCreate_params)+

lemma store_sentinel_inv: "breaker_inv (store True class s b) = breaker_inv b"
  by (simp add: store_def breaker_inv_def)

lemma call_inv: "breaker_inv b \<Longrightarrow> breaker_inv (call ord x b)"
proof -
  assume inv: "breaker_inv b"
  obtain c op sen b1 where x: "x = (c, op)" and g: "getOrCreate ord c b = (sen, b1)"
    by (cases x; cases "getOrCreate ord (fst x) b") auto
  from getOrCreate_inv [OF inv g]
  have b1: "breaker_inv b1" "\<not> sen \<longrightarrow> map_of (classes b1) c \<noteq> None" by auto
  show ?thesis
  proof (cases sen)
    case True
    with b1 g x show ?thesis by (simp add: call_alt store_sentinel_inv)
  next
    case False
    have "class_inv (failureThreshold b1)
       (call_entry (failureThreshold b1) (window b1) (resetTimeout b1) op (deref sen c b1))"
      using b1 False by (intro call_entry_inv deref_inv) (auto simp: breaker_inv_def)
    with b1 g x False show ?thesis by (simp add: call_alt store_inv)
  qed
qed

lemma run_inv: "breaker_inv b \<Longrightarrow> breaker_inv (run ords xs b)"
  by (induction ords xs b rule: run.induct) (simp_all add: call_inv)

lemma new_breaker_inv: "breaker_inv (NewCircuitBreaker cfg)"
  by (simp add: breaker_inv_def NewCircuitBreaker_def)

text \<open>Below capacity a call is the class's own automaton and touches no other class.\<close>

lemma entry_simps:
  "entry (b\<lparr>classes := cs\<rparr>) c = (case map_of cs c of None \<Rightarrow> newClassState | Some s \<Rightarrow> s)"
  by (simp add: entry_def deref_def)

lemma call_below_capacity:
  assumes "map_of (classes b) c \<noteq> None \<or> length (classes b) < maxBreakerClasses"
  shows "entry (call ord (c, x) b) d =
           (if d = c then call_entry (failureThreshold b) (window b) (resetTimeout b) x (entry b c)
            else entry b d)"
    and "dom (map_of (classes (call ord (c, x) b))) = insert c (dom (map_of (classes b)))"
  by (cases rule: getOrCreate_cases [of b c ord];
      use assms in \<open>auto simp: call_alt store_def entry_def deref_def alist_ops split: if_splits\<close>)+

lemma run_refines_entry:
  assumes "breaker_inv b"
    and "card (dom (map_of (classes b)) \<union> fst ` set xs) \<le> maxBreakerClasses"
  shows "entry (run ords xs b) c =
    run_entry (failureThreshold b) (window b) (resetTimeout b) (calls_of c xs) (entry b c)"
  using assms
proof (induction ords xs b rule: run.induct)
  case (1 ords b)
  then show ?case by (simp add: run_entry_def calls_of_def)
next
  case (2 ords x xs b)
  obtain k op where x: "x = (k, op)" by (cases x)
  let ?b = "call (ords (length xs)) x b"
  have room: "map_of (classes b) k \<noteq> None \<or> length (classes b) < maxBreakerClasses"
  proof (cases "map_of (classes b) k")
    case None
    then have "dom (map_of (classes b)) \<subset> dom (map_of (classes b)) \<union> fst ` set (x # xs)"
      using x by auto
    then have "card (dom (map_of (classes b))) < card (dom (map_of (classes b)) \<union> fst ` set (x # xs))"
      by (intro psubset_card_mono) (simp_all add: finite_dom_map_of)
    with 2(2,3) show ?thesis by (simp add: breaker_inv_def alist_card)
  qed simp
  note step = call_below_capacity [OF room]
  have "dom (map_of (classes ?b)) \<union> fst ` set xs = dom (map_of (classes b)) \<union> fst ` set (x # xs)"
    using step(2) x by auto
  then have "entry (run ords xs ?b) c =
      run_entry (failureThreshold b) (window b) (resetTimeout b) (calls_of c xs) (entry ?b c)"
    using 2 by (simp add: call_inv)
  then show ?case using x by (auto simp: step(1) run_entry_def calls_of_def)
qed

lemma failures_simps [simp]:
  "failures [] = []"
  "failures (CFailure t # xs) = t # failures xs"
  "failures (CAllow t # xs) = failures xs"
  "failures (CSuccess # xs) = failures xs"
  "failures (xs @ ys) = failures xs @ failures ys"
  by (simp_all add: failures_def)

lemma cap_failures_id:
  "0 < thr \<Longrightarrow> thr < 2 ^ 62 \<Longrightarrow> int (length fs) \<le> thr \<Longrightarrow> cap_failures thr fs = fs"
  by (simp add: cap_failures_def in64_def)

lemma allow_entry_closed [simp]: "state s = stateClosed \<Longrightarrow> allow_entry now s = (True, s)"
  by (simp add: allow_entry_def)

lemma dropWhile_none: "\<forall>x \<in> set xs. \<not> P x \<Longrightarrow> dropWhile P xs = xs"
  by (cases xs) auto

text \<open>
  A failure on a closed entry, when the trimmed list is \<open>fs\<close>: the cap never applies.
\<close>

lemma failure_entry_closed:
  assumes "state s = stateClosed" "0 < thr" "thr < 2 ^ 62"
    and "dropWhile (\<lambda>t. t < now - win) (failureTimes s) = fs" "int (length fs) < thr"
  shows "failure_entry thr win reset now s =
    (if int (length fs) + 1 < thr then s\<lparr>failureTimes := fs @ [now]\<rparr>
     else s\<lparr>state := stateOpen, openUntil := now + reset, failureTimes := []\<rparr>)"
proof -
  have "cap_failures thr (fs @ [now]) = fs @ [now]"
    using assms by (intro cap_failures_id) auto
  with assms show ?thesis
    by (simp add: failure_entry_def Let_def trimWindow_def)
qed

lemma failure_entry_in_window:
  assumes "state s = stateClosed" "0 < thr" "thr < 2 ^ 62"
    and "\<forall>t \<in> set (failureTimes s). now - win \<le> t" "int (length (failureTimes s)) < thr"
  shows "failure_entry thr win reset now s =
    (if int (length (failureTimes s)) + 1 < thr then s\<lparr>failureTimes := failureTimes s @ [now]\<rparr>
     else s\<lparr>state := stateOpen, openUntil := now + reset, failureTimes := []\<rparr>)"
  using assms by (intro failure_entry_closed dropWhile_none) (auto simp: not_less)

lemma run_entry_simps [simp]:
  "run_entry thr win reset [] s = s"
  "run_entry thr win reset (x # xs) s = run_entry thr win reset xs (call_entry thr win reset x s)"
  "run_entry thr win reset (xs @ ys) s = run_entry thr win reset ys (run_entry thr win reset xs s)"
  by (simp_all add: run_entry_def)

lemma run_entry_accumulates:
  assumes "state s = stateClosed" "0 < thr" "thr < 2 ^ 62" "CSuccess \<notin> set xs"
    and "\<forall>t \<in> set (failureTimes s @ failures xs). T - win \<le> t \<and> t \<le> T"
    and "int (length (failureTimes s @ failures xs)) < thr"
  shows "run_entry thr win reset xs s = s\<lparr>failureTimes := failureTimes s @ failures xs\<rparr>"
  using assms
proof (induction xs arbitrary: s)
  case (Cons x xs)
  show ?case
  proof (cases x)
    case (CFailure t)
    have "\<forall>u \<in> set (failureTimes s). t - win \<le> u"
      using Cons.prems(5) CFailure by (auto dest: bspec)
    then have "call_entry thr win reset x s = s\<lparr>failureTimes := failureTimes s @ [t]\<rparr>"
      using Cons.prems CFailure by (simp add: call_entry_def failure_entry_in_window)
    with Cons CFailure show ?thesis by simp
  qed (use Cons in \<open>auto simp: call_entry_def\<close>)
qed simp

lemma run_entry_trips:
  assumes "state s = stateClosed" "failureTimes s = []" "0 < thr" "thr < 2 ^ 62" "CSuccess \<notin> set xs"
    and "\<forall>t \<in> set (failures xs). now - win \<le> t \<and> t \<le> now"
    and "int (length (failures xs)) + 1 = thr"
  shows "run_entry thr win reset (xs @ [CFailure now]) s =
     s\<lparr>state := stateOpen, openUntil := now + reset\<rparr>"
proof -
  have "run_entry thr win reset xs s = s\<lparr>failureTimes := failures xs\<rparr>"
    using assms run_entry_accumulates [of s thr xs now win reset] by simp
  then show ?thesis
    using assms by (simp add: call_entry_def failure_entry_in_window)
qed

lemma filter_swap: "filter P (filter Q xs) = filter Q (filter P xs)"
  by (simp add: conj_commute)

lemma failure_entry_sorted:
  assumes "state s = stateClosed" "0 < thr" "thr < 2 ^ 62" "class_inv thr s" "sorted (failureTimes s)"
  shows "failure_entry thr win reset now s =
    (let fs = filter (\<lambda>u. now - win \<le> u) (failureTimes s) @ [now]
     in if int (length fs) < thr then s\<lparr>failureTimes := fs\<rparr>
        else s\<lparr>state := stateOpen, openUntil := now + reset, failureTimes := []\<rparr>)"
proof -
  let ?fs = "filter (\<lambda>u. now - win \<le> u) (failureTimes s)"
  have "int (length ?fs) < thr"
    using assms(1,4) le_less_trans [of "int (length ?fs)" "int (length (failureTimes s))" thr]
    by (simp add: class_inv_def)
  then show ?thesis
    using assms by (subst failure_entry_closed [where fs = ?fs])
      (auto simp: dropWhile_sorted_filter Let_def)
qed

lemma run_entry_sparse_closed:
  assumes "sparse thr win past xs" "state s = stateClosed" "0 < thr" "thr < 2 ^ 62" "class_inv thr s"
    and "sorted (failureTimes s)" "set (failureTimes s) \<subseteq> set past"
    and "\<forall>Q. length (filter Q (failureTimes s)) \<le> length (filter Q past)"
  shows "state (run_entry thr win reset xs s) = stateClosed"
  using assms
proof (induction thr win past xs arbitrary: s rule: sparse.induct)
  case (2 thr win past t xs)
  let ?keep = "\<lambda>u. t - win \<le> u"
  let ?s = "s\<lparr>failureTimes := filter ?keep (failureTimes s) @ [t]\<rparr>"
  from 2(2) have few: "int (length (filter ?keep past)) + 1 < thr"
    and late: "\<forall>u \<in> set past. u \<le> t" and rest: "sparse thr win (past @ [t]) xs"
    by auto
  have "length (filter ?keep (failureTimes s)) \<le> length (filter ?keep past)"
    using 2(9) by blast
  with few have len: "int (length (filter ?keep (failureTimes s) @ [t])) < thr" by simp
  have step: "failure_entry thr win reset t s = ?s"
    using 2(3-7) len by (simp add: failure_entry_sorted Let_def)
  have "\<forall>Q. length (filter Q (filter ?keep (failureTimes s))) \<le> length (filter Q past)"
    using 2(9) by (metis filter_swap length_filter_le order_trans)
  then have "state (run_entry thr win reset xs ?s) = stateClosed"
    using 2(3-8) late rest len
    by (intro 2(1)) (auto simp: sorted_append class_inv_def sorted_wrt_filter)
  with step show ?case by (simp add: call_entry_def)
qed (auto simp: call_entry_def success_entry_def class_inv_def)


lemma Allow_present:
  assumes "map_of (classes b) c = Some s"
  shows "Allow ord now c b =
    (fst (allow_entry now s), b\<lparr>classes := AList.update c (snd (allow_entry now s)) (classes b)\<rparr>)"
  using assms by (simp add: Allow_def getOrCreate_def deref_def store_def split: prod.splits)

lemma allow_answers_used:
  assumes "map_of (classes b) c = Some s" "state s = stateHalfOpen" "halfOpenProbeUsed s"
  shows "allow_answers ords c ts b = replicate (length ts) False"
  using assms
proof (induction ts arbitrary: b)
  case (Cons t ts)
  from Cons.prems have "Allow (ords (length ts)) t c b = (False, b\<lparr>classes := AList.update c s (classes b)\<rparr>)"
    by (simp add: Allow_present allow_entry_def)
  with Cons show ?case by (simp add: update_conv')
qed simp

lemma allow_answers_probe:
  assumes "map_of (classes b) c = Some s" "state s = stateOpen" "openUntil s \<le> t"
  shows "allow_answers ords c (t # ts) b = True # replicate (length ts) False"
proof -
  let ?s = "s\<lparr>state := stateHalfOpen, halfOpenProbeUsed := True\<rparr>"
  have "Allow (ords (length ts)) t c b = (True, b\<lparr>classes := AList.update c ?s (classes b)\<rparr>)"
    using assms by (simp add: Allow_present allow_entry_def)
  moreover have "allow_answers ords c ts (b\<lparr>classes := AList.update c ?s (classes b)\<rparr>)
      = replicate (length ts) False"
    by (rule allow_answers_used [of _ _ ?s]) (simp_all add: update_conv')
  ultimately show ?thesis by simp
qed

lemma allow_answers_open:
  assumes "map_of (classes b) c = Some s" "state s = stateOpen" "\<forall>t \<in> set ts. t < openUntil s"
  shows "allow_answers ords c ts b = replicate (length ts) False"
  using assms
proof (induction ts arbitrary: b)
  case (Cons t ts)
  from Cons.prems have "Allow (ords (length ts)) t c b = (False, b\<lparr>classes := AList.update c s (classes b)\<rparr>)"
    by (simp add: Allow_present allow_entry_def)
  with Cons show ?case by (simp add: update_conv')
qed simp

text \<open>Eviction when the map is full.\<close>

lemma evict_priority:
  assumes "visits_all ord" and "evict ord cs = Some k"
  shows "\<exists>v. map_of cs k = Some v \<and> (\<forall>k' v'. map_of cs k' = Some v' \<longrightarrow>
    evict_rank v \<le> evict_rank v' \<and> (evict_rank v = 2 \<longrightarrow> openUntil v \<le> openUntil v'))"
proof -
  have keys: "set (ord i (map fst cs)) = dom (map_of cs)" for i
    using assms(1) by (simp add: visits_all_def dom_map_of_conv_image_fst)
  from assms(2) consider (clean) "evict_clean cs (ord 0 (map fst cs)) = Some k"
    | (closed) "evict_clean cs (ord 0 (map fst cs)) = None" "evict_closed cs (ord 1 (map fst cs)) = Some k"
    | (oldest) "evict_clean cs (ord 0 (map fst cs)) = None" "evict_closed cs (ord 1 (map fst cs)) = None"
        "evict_oldest cs (ord 2 (map fst cs)) = Some k"
    by (auto simp: evict_def Let_def split: option.splits)
  then show ?thesis
  proof cases
    case clean
    from evict_clean_SomeD [OF this] show ?thesis by (auto simp: evict_rank_def)
  next
    case closed
    from evict_closed_SomeD [OF closed(2)] closed(1) show ?thesis
      by (fastforce simp: evict_clean_None keys evict_rank_def)
  next
    case oldest
    from evict_oldest_SomeD [OF oldest(3)] oldest(2) show ?thesis
      by (fastforce simp: evict_closed_None keys evict_rank_def)
  qed
qed

text \<open>
  \<open>getOrCreate\<close> falls back to the sentinel only when the map is full of entries that are
  not closed and the empty class name is a least recently opening one.
\<close>

lemma oldest_scan_None: "oldest_scan cs ks acc = None \<longleftrightarrow> acc = None \<and> (\<forall>k \<in> set ks. map_of cs k = None)"
  by (induction ks arbitrary: acc) (auto simp del: not_None_eq split: option.splits)

lemma evict_None:
  assumes "visits_all ord" and "cs \<noteq> []" and "evict ord cs = None"
  shows "\<exists>v. map_of cs [] = Some v \<and> (\<forall>k' v'. map_of cs k' = Some v' \<longrightarrow>
    state v' \<noteq> stateClosed \<and> openUntil v \<le> openUntil v')"
proof -
  have keys: "set (ord i (map fst cs)) = dom (map_of cs)" for i
    using assms(1) by (simp add: visits_all_def dom_map_of_conv_image_fst)
  from assms(3) have none: "evict_closed cs (ord 1 (map fst cs)) = None"
    "evict_oldest cs (ord 2 (map fst cs)) = None"
    by (auto simp: evict_def Let_def split: option.splits)
  obtain k0 where "k0 \<in> dom (map_of cs)"
    using assms(2) by (cases cs) (auto simp: dom_map_of_conv_image_fst)
  then have "oldest_scan cs (ord 2 (map fst cs)) None \<noteq> None"
    unfolding oldest_scan_None keys by auto
  then obtain k t where scan: "oldest_scan cs (ord 2 (map fst cs)) None = Some (k, t)" by auto
  with none(2) have "k = []" by (simp add: evict_oldest_def split: if_splits)
  with oldest_scan_spec [OF scan] none(1) show ?thesis
    by (fastforce simp: evict_closed_None keys)
qed


lemma new_run_entry:
  assumes "card (fst ` set xs) \<le> maxBreakerClasses"
  shows "entry (run ords xs (NewCircuitBreaker cfg)) c =
    run_entry (failureThreshold (NewCircuitBreaker cfg)) (window (NewCircuitBreaker cfg))
      (resetTimeout (NewCircuitBreaker cfg)) (calls_of c xs) newClassState"
proof -
  have "classes (NewCircuitBreaker cfg) = []" by (simp add: NewCircuitBreaker_def)
  with assms run_refines_entry [OF new_breaker_inv, of cfg xs ords c] show ?thesis
    by (simp add: entry_def deref_def)
qed

text \<open>
  C18: after any sequence of \<open>Allow\<close>, \<open>RecordSuccess\<close> and \<open>RecordFailure\<close> calls on a
  new breaker, in any order and with any clock readings and map orders, the class map has
  distinct keys and at most \<open>maxBreakerClasses\<close> entries, a closed entry holds fewer
  failure times than the threshold, an entry that is not closed holds none, and the probe
  flag is set in the half-open state only.
\<close>

theorem breaker_run_invariant: "breaker_inv (run ords xs (NewCircuitBreaker cfg))"
  by (rule run_inv [OF new_breaker_inv])

text \<open>
  C5: as long as the calls name at most \<open>maxBreakerClasses\<close> classes, each class's entry is
  what the reference automaton of that class computes from the calls of that class alone:
  the classes of a breaker never influence each other.
\<close>

theorem breaker_refines_class_automaton:
  assumes "card (fst ` set xs) \<le> maxBreakerClasses"
  shows "entry (run ords xs (NewCircuitBreaker cfg)) c =
    run_entry (failureThreshold (NewCircuitBreaker cfg)) (window (NewCircuitBreaker cfg))
      (resetTimeout (NewCircuitBreaker cfg)) (calls_of c xs) newClassState"
  using assms by (rule new_run_entry)

theorem breaker_refines_class_automaton_witness:
  "state (entry (run (\<lambda>_ _ ks. ks) [(''a'', CFailure 1), (''b'', CFailure 2), (''a'', CFailure 3)]
      (NewCircuitBreaker \<lparr>FailureThreshold = 2, Window = 10, ResetTimeout = 5\<rparr>)) ''a'') = stateOpen"
  by (subst breaker_refines_class_automaton)
    (simp_all add: maxBreakerClasses_def NewCircuitBreaker_def calls_of_def call_entry_def
      failure_entry_def newClassState_def cap_failures_def in64_def trimWindow_def Let_def
      card_insert_if)

text \<open>
  C15: the breaker trips. Let the calls contain, for class \<open>c\<close>, no success and exactly
  as many failures as the threshold, all within one window of the last one, which is the
  last call for \<open>c\<close>; calls for other classes and \<open>Allow\<close> calls may be interleaved at
  will. Then the circuit of \<open>c\<close> is open from that failure until the reset timeout has
  passed, and \<open>Allow\<close> denies every request in that time.
\<close>

theorem breaker_trips:
  assumes "card (fst ` set xs) \<le> maxBreakerClasses"
    and "calls_of c xs = ys @ [CFailure t]" and "CSuccess \<notin> set ys"
    and "\<forall>u \<in> set (failures ys). t - window (NewCircuitBreaker cfg) \<le> u \<and> u \<le> t"
    and "int (length (failures ys)) + 1 = failureThreshold (NewCircuitBreaker cfg)"
    and "failureThreshold (NewCircuitBreaker cfg) < 2 ^ 62"
    and "now < t + resetTimeout (NewCircuitBreaker cfg)"
  shows "IsOpen now c (run ords xs (NewCircuitBreaker cfg)) \<and>
         \<not> fst (Allow ord now c (run ords xs (NewCircuitBreaker cfg)))"
proof -
  let ?b = "run ords xs (NewCircuitBreaker cfg)"
  have "0 < failureThreshold (NewCircuitBreaker cfg)"
    by (simp add: NewCircuitBreaker_def)
  then have e: "entry ?b c = newClassState\<lparr>state := stateOpen,
      openUntil := t + resetTimeout (NewCircuitBreaker cfg)\<rparr>"
    using new_run_entry [OF assms(1), of ords cfg c] assms(2-6)
      run_entry_trips [of newClassState "failureThreshold (NewCircuitBreaker cfg)" ys t
        "window (NewCircuitBreaker cfg)" "resetTimeout (NewCircuitBreaker cfg)"]
    by (simp add: newClassState_def)
  then have "map_of (classes ?b) c = Some (entry ?b c)"
    by (simp add: entry_def deref_def newClassState_def split: option.splits)
  with e assms(7) show ?thesis
    by (simp add: IsOpen_def Allow_present allow_entry_def)
qed

lemma demo_breaker:
  "NewCircuitBreaker demo_cfg = \<lparr>failureThreshold = 2, window = 10, resetTimeout = 5, classes = [],
     sentinel = sentinelDenied\<rparr>"
  by (simp add: NewCircuitBreaker_def)

theorem breaker_trips_witness:
  "IsOpen 7 ''a'' (run (\<lambda>_ _ ks. ks) [(''a'', CFailure 1), (''b'', CSuccess), (''a'', CFailure 3)]
     (NewCircuitBreaker demo_cfg))"
  using breaker_trips [of "[(''a'', CFailure 1), (''b'', CSuccess), (''a'', CFailure 3)]" "''a''"
      "[CFailure 1]" 3 demo_cfg 7 "\<lambda>_ _ ks. ks"]
  by (simp add: maxBreakerClasses_def calls_of_def demo_breaker card_insert_if)

text \<open>
  C16: the breaker never trips without cause. If the failures of class \<open>c\<close> are recorded at
  non-decreasing times and no failure is the last of \<open>threshold\<close> failures within one
  window, the circuit of \<open>c\<close> is closed: it is not reported open and \<open>Allow\<close> admits.
\<close>

theorem breaker_no_spurious_trip:
  assumes "card (fst ` set xs) \<le> maxBreakerClasses"
    and "sparse (failureThreshold (NewCircuitBreaker cfg)) (window (NewCircuitBreaker cfg)) []
      (calls_of c xs)"
    and "failureThreshold (NewCircuitBreaker cfg) < 2 ^ 62"
    and "map_of (classes (run ords xs (NewCircuitBreaker cfg))) c \<noteq> None"
  shows "\<not> IsOpen now c (run ords xs (NewCircuitBreaker cfg)) \<and>
         fst (Allow ord now c (run ords xs (NewCircuitBreaker cfg)))"
proof -
  let ?b = "run ords xs (NewCircuitBreaker cfg)"
  have pos: "0 < failureThreshold (NewCircuitBreaker cfg)" by (simp add: NewCircuitBreaker_def)
  have "state (entry ?b c) = stateClosed"
    using new_run_entry [OF assms(1), of ords cfg c] assms(2,3) pos
      run_entry_sparse_closed [of _ _ "[]" _ newClassState, OF assms(2)]
    by (simp add: class_inv_new [OF pos]) (simp add: newClassState_def)
  with assms(4) show ?thesis
    by (auto simp: entry_def deref_def IsOpen_def Allow_present)
qed

theorem breaker_no_spurious_trip_witness:
  "\<not> IsOpen 30 ''a'' (run (\<lambda>_ _ ks. ks) [(''a'', CFailure 1), (''a'', CFailure 20)]
     (NewCircuitBreaker demo_cfg))"
  using breaker_no_spurious_trip [of "[(''a'', CFailure 1), (''a'', CFailure 20)]" demo_cfg "''a''"
      "\<lambda>_ _ ks. ks" 30]
  by (simp add: maxBreakerClasses_def calls_of_def demo_breaker call_def RecordFailure_def
      getOrCreate_def store_def update_conv')

text \<open>
  C17: the half-open probe. Once the reset timeout of an open circuit has passed, the next
  \<open>Allow\<close> call answers true and every later one answers false, whatever the clock says,
  until an outcome is recorded.
\<close>

theorem breaker_half_open_single_probe:
  assumes "map_of (classes b) c = Some s" and "state s = stateOpen" and "openUntil s \<le> t"
  shows "allow_answers ords c (t # ts) b = True # replicate (length ts) False"
  using assms by (rule allow_answers_probe)

theorem breaker_half_open_single_probe_witness:
  "allow_answers (\<lambda>_ _ ks. ks) ''a'' [9, 10, 500]
     ((NewCircuitBreaker demo_cfg)\<lparr>classes := [(''a'', sentinelDenied\<lparr>openUntil := 8\<rparr>)]\<rparr>)
   = [True, False, False]"
  using breaker_half_open_single_probe [of
      "(NewCircuitBreaker demo_cfg)\<lparr>classes := [(''a'', sentinelDenied\<lparr>openUntil := 8\<rparr>)]\<rparr>" "''a''"
      "sentinelDenied\<lparr>openUntil := 8\<rparr>" 9 "\<lambda>_ _ ks. ks" "[10, 500]"]
  by (simp add: sentinelDenied_def numeral_2_eq_2)

text \<open>
  C19: eviction. When a class unknown to a full breaker is looked up, the map keeps its size:
  either exactly one entry gives way to a new closed entry for the class, chosen so that
  closed entries without failures go first, then closed entries, then the entry with the
  earliest \<open>openUntil\<close>, and all other entries stay; or, only if no entry is closed and
  the empty class name has an earliest \<open>openUntil\<close>, nothing changes and the request is
  denied through the sentinel.
\<close>

theorem breaker_eviction:
  assumes "breaker_inv b" and "visits_all ord" and "map_of (classes b) c = None"
    and "length (classes b) = maxBreakerClasses"
    and "getOrCreate ord c b = (sen, b')"
  shows "length (classes b') = maxBreakerClasses \<and>
    (if sen then b' = b \<and> (\<exists>v. map_of (classes b) [] = Some v \<and>
         (\<forall>k' v'. map_of (classes b) k' = Some v' \<longrightarrow>
            state v' \<noteq> stateClosed \<and> openUntil v \<le> openUntil v'))
     else \<exists>k v. map_of (classes b) k = Some v \<and>
         map_of (classes b') = (map_of (classes b))(k := None, c \<mapsto> newClassState) \<and>
         (\<forall>k' v'. map_of (classes b) k' = Some v' \<longrightarrow>
            evict_rank v \<le> evict_rank v' \<and> (evict_rank v = 2 \<longrightarrow> openUntil v \<le> openUntil v')))"
proof -
  have dist: "distinct (map fst (classes b))" using assms(1) by (simp add: breaker_inv_def)
  show ?thesis
  proof (cases rule: getOrCreate_cases [of b c ord])
    case denied
    have "classes b \<noteq> []" using assms(4) by (auto simp: maxBreakerClasses_def)
    from evict_None [OF assms(2) this denied(3)] denied(4) assms(4,5) show ?thesis by simp
  next
    case (evicted k)
    obtain v where v: "map_of (classes b) k = Some v"
      "\<forall>k' v'. map_of (classes b) k' = Some v' \<longrightarrow>
         evict_rank v \<le> evict_rank v' \<and> (evict_rank v = 2 \<longrightarrow> openUntil v \<le> openUntil v')"
      using evict_priority [OF assms(2) evicted(3)] by blast
    have "Suc (length (AList.delete k (classes b))) = maxBreakerClasses"
      using dist v(1) assms(4) by (simp add: length_alist_delete)
    moreover have "map_of (AList.delete k (classes b)) c = None"
      using assms(3) by (simp add: delete_conv')
    ultimately have len: "length (classes b') = maxBreakerClasses"
      using evicted(4) assms(5) dist by (auto simp: length_alist_update distinct_delete)
    have "map_of (classes b') = (map_of (classes b))(k := None, c \<mapsto> newClassState)"
      using evicted(4) assms(5) by (auto simp: update_conv' delete_conv')
    with v len evicted(4) assms(5) show ?thesis by auto
  qed (use assms in auto)
qed

lemma demo_keys: "distinct (map fst (map (\<lambda>i. (replicate i c, s)) [0..<n]))"
  by (simp add: distinct_map comp_def inj_on_def)

lemma full_demo_inv: "breaker_inv full_demo"
proof -
  have "s = newClassState" if "map_of (classes full_demo) k = Some s" for k s
    using map_of_SomeD [OF that] by (auto simp: full_demo_def)
  moreover have "distinct (map fst (classes full_demo))"
    using demo_keys [of "CHR ''x''" newClassState maxBreakerClasses] by (simp add: full_demo_def)
  moreover have "failureThreshold full_demo = 2 \<and> window full_demo = 10 \<and> resetTimeout full_demo = 5"
    "length (classes full_demo) = maxBreakerClasses"
    by (simp_all add: full_demo_def demo_breaker)
  moreover have "class_inv 2 newClassState" by (simp add: class_inv_new)
  ultimately show ?thesis unfolding breaker_inv_def by (metis order_refl zero_less_numeral)
qed

theorem breaker_eviction_witness:
  "length (classes (snd (getOrCreate (\<lambda>_ ks. ks) ''y'' full_demo))) = maxBreakerClasses"
proof -
  have "replicate i (CHR ''x'') \<noteq> ''y''" for i by (cases i) auto
  then have "''y'' \<notin> fst ` set (classes full_demo)"
    by (force simp: full_demo_def)
  then have "map_of (classes full_demo) ''y'' = None" by (simp add: map_of_eq_None_iff)
  moreover have "length (classes full_demo) = maxBreakerClasses" by (simp add: full_demo_def)
  ultimately show ?thesis
    using breaker_eviction [OF full_demo_inv, of "\<lambda>_ ks. ks" "''y''"
        "fst (getOrCreate (\<lambda>_ ks. ks) ''y'' full_demo)" "snd (getOrCreate (\<lambda>_ ks. ks) ''y'' full_demo)"]
    by (simp add: visits_all_def)
qed

end
