(* ===== verification/Payload.thy ===== *)
theory Payload
  imports Crank_Prelude
begin

text \<open>
  Package \<^verbatim>\<open>internal/payload\<close>: the job record and its constructors (\<^verbatim>\<open>job.go\<close>), the job
  validators (\<^verbatim>\<open>validator.go\<close>) and the argument redactors (\<^verbatim>\<open>redactor.go\<close>).
  \<open>json.Marshal\<close> and \<open>json.Unmarshal\<close> on the job struct are the arguments
  \<open>marshal\<close> and \<open>unmarshal\<close> of the operations that call them.
\<close>

section \<open>Jobs\<close>

type_synonym JobState = string

definition JobStatePending :: JobState where "JobStatePending = ''pending''"
definition JobStateActive :: JobState where "JobStateActive = ''active''"
definition JobStateSuccess :: JobState where "JobStateSuccess = ''success''"
definition JobStateFailed :: JobState where "JobStateFailed = ''failed''"
definition JobStateDead :: JobState where "JobStateDead = ''dead''"

definition MaxRetryCount :: int where "MaxRetryCount = 25"
definition MaxBackoffShift :: int where "MaxBackoffShift = 30"

lemmas job_consts = JobStatePending_def JobStateActive_def JobStateSuccess_def JobStateFailed_def
  JobStateDead_def MaxRetryCount_def MaxBackoffShift_def

text \<open>
  \<open>Args\<close> is \<open>None\<close> for the nil slice. The two timestamps are \<open>float64\<close> values,
  \<open>RawPayload\<close> is a byte slice of which the program only asks whether it is empty and
  what it holds.
\<close>

record Job =
  JID :: string
  Class :: string
  Args :: "gval list option"
  Queue :: string
  Retry :: int
  RetryCount :: int
  CreatedAt :: rat
  EnqueuedAt :: rat
  Backtrace :: bool
  State :: JobState
  RawPayload :: string

definition args_of :: "Job \<Rightarrow> gval list" where
  "args_of j = (case Args j of None \<Rightarrow> [] | Some xs \<Rightarrow> xs)"

text \<open>
  \<open>jid\<close> is what \<open>uuid.New().String()\<close> returned and \<open>now\<close> the clock reading. Unix
  seconds are exact as \<open>float64\<close> for the next 285 million years.
\<close>

definition NewJob :: "string \<Rightarrow> time \<Rightarrow> string \<Rightarrow> string \<Rightarrow> gval list option \<Rightarrow> Job" where
  "NewJob jid now workerClass queue args =
     \<lparr>JID = jid, Class = workerClass, Args = args, Queue = queue, Retry = 5, RetryCount = 0,
      CreatedAt = of_int (Unix now), EnqueuedAt = of_int (Unix now), Backtrace = False,
      State = JobStatePending, RawPayload = []\<rparr>"

definition SetRetry :: "int \<Rightarrow> Job \<Rightarrow> Job" where
  "SetRetry count j =
     (let c1 = (if count > MaxRetryCount then MaxRetryCount else count);
          c2 = (if c1 < 0 then 0 else c1)
      in j\<lparr>Retry := c2\<rparr>)"

definition SetBacktrace :: "bool \<Rightarrow> Job \<Rightarrow> Job" where
  "SetBacktrace enabled j = j\<lparr>Backtrace := enabled\<rparr>"

definition ToJSON :: "(Job \<Rightarrow> error + string) \<Rightarrow> Job \<Rightarrow> error + string" where
  "ToJSON marshal j = marshal j"

text \<open>The clamping \<open>FromJSON\<close> applies to what \<open>json.Unmarshal\<close> filled in.\<close>

definition clamp_decoded :: "Job \<Rightarrow> Job" where
  "clamp_decoded j0 =
     (let j1 = (if State j0 = [] then j0\<lparr>State := JobStatePending\<rparr> else j0);
          j2 = (if Retry j1 > MaxRetryCount then j1\<lparr>Retry := MaxRetryCount\<rparr> else j1);
          j3 = (if Retry j2 < 0 then j2\<lparr>Retry := 0\<rparr> else j2);
          j4 = (if RetryCount j3 < 0 then j3\<lparr>RetryCount := 0\<rparr> else j3)
      in if RetryCount j4 > MaxRetryCount then j4\<lparr>RetryCount := MaxRetryCount\<rparr> else j4)"

definition FromJSON :: "(string \<Rightarrow> error + Job) \<Rightarrow> string \<Rightarrow> error + Job" where
  "FromJSON unmarshal data =
     (case unmarshal data of
        Inl e \<Rightarrow> Inl (Wrapf ''failed to unmarshal job'' e)
      | Inr j \<Rightarrow> Inr (clamp_decoded j))"

definition Job_String :: "Job \<Rightarrow> string" where
  "Job_String j = ''Job{Class: '' @ Class j @ '', Queue: '' @ Queue j @ '', JID: '' @ JID j @ ''}''"

record JobOptions =
  opt_Retry :: "int option"
  opt_Backtrace :: "bool option"

text \<open>
  The well-formedness the rest of the program relies on: what \<open>FromJSON\<close>, \<open>NewJob\<close>
  and \<open>SetRetry\<close> establish.
\<close>

definition wf_job :: "Job \<Rightarrow> bool" where
  "wf_job j \<longleftrightarrow> 0 \<le> Retry j \<and> Retry j \<le> MaxRetryCount \<and>
     0 \<le> RetryCount j \<and> RetryCount j \<le> MaxRetryCount \<and> State j \<noteq> []"

section \<open>Validators\<close>

type_synonym Validator = "Job \<Rightarrow> error option"

definition queue_name_char :: "char \<Rightarrow> bool" where
  "queue_name_char c \<longleftrightarrow>
     (let n = (of_char c :: nat) in
      (65 \<le> n \<and> n \<le> 90) \<or> (97 \<le> n \<and> n \<le> 122) \<or> (48 \<le> n \<and> n \<le> 57) \<or> n = 95 \<or> n = 45)"

text \<open>The regular expression \<^verbatim>\<open>^[A-Za-z0-9_\-]{1,128}$\<close>.\<close>

definition validQueueName :: "string \<Rightarrow> bool" where
  "validQueueName name \<longleftrightarrow> 1 \<le> length name \<and> length name \<le> 128 \<and> list_all queue_name_char name"

definition ValidateQueueName :: "string \<Rightarrow> error option" where
  "ValidateQueueName name = (if \<not> validQueueName name then Some (InvalidQueueName name) else None)"

definition ValidateWorkerClass :: "string \<Rightarrow> error option" where
  "ValidateWorkerClass class = (if class = [] then Some EmptyWorkerClass else None)"

definition MaxArgsCount :: "int \<Rightarrow> Validator" where
  "MaxArgsCount maxArgs job =
     (if int (length (args_of job)) > maxArgs
      then Some (ArgsCountExceeds (length (args_of job)) maxArgs) else None)"

definition ClassAllowlist :: "(string \<rightharpoonup> bool) \<Rightarrow> Validator" where
  "ClassAllowlist allowed job =
     (if allowed (Class job) \<noteq> Some True then Some (ClassNotInAllowlist (Class job)) else None)"

text \<open>\<open>matches\<close> is \<open>pattern.MatchString\<close> of the given regular expression.\<close>

definition ClassPattern :: "(string \<Rightarrow> bool) \<Rightarrow> Validator" where
  "ClassPattern matches job =
     (if \<not> matches (Class job) then Some (ClassNotMatching (Class job)) else None)"

text \<open>The regular expression \<^verbatim>\<open>^[A-Za-z0-9_]+$\<close> of \<open>SafeClassPattern\<close> in \<^verbatim>\<open>crank.go\<close>.\<close>

definition safe_class_char :: "char \<Rightarrow> bool" where
  "safe_class_char c \<longleftrightarrow> queue_name_char c \<and> c \<noteq> CHR ''-''"

definition SafeClassPattern :: Validator where
  "SafeClassPattern = ClassPattern (\<lambda>s. s \<noteq> [] \<and> list_all safe_class_char s)"

definition MaxPayloadSize :: "(Job \<Rightarrow> error + string) \<Rightarrow> int \<Rightarrow> Validator" where
  "MaxPayloadSize marshal maxBytes job =
     (case (if RawPayload job \<noteq> [] then Inr (length (RawPayload job))
            else case ToJSON marshal job of Inl e \<Rightarrow> Inl e | Inr data \<Rightarrow> Inr (length data)) of
        Inl e \<Rightarrow> Some e
      | Inr n \<Rightarrow> if int n > maxBytes then Some (PayloadSizeExceeds n maxBytes) else None)"

fun ChainValidator :: "Validator list \<Rightarrow> Validator" where
  "ChainValidator [] job = None"
| "ChainValidator (v # vs) job =
     (case v job of Some e \<Rightarrow> Some e | None \<Rightarrow> ChainValidator vs job)"

section \<open>Redactors\<close>

type_synonym Redactor = "gval list \<Rightarrow> string"

text \<open>
  \<open>fmt.Sprintf\<close> with \<open>%d\<close> and \<open>%v\<close>. \<open>leaf\<close> is what \<open>%v\<close> prints for a
  \<open>float64\<close> or for a value of a type the program does not know; a map prints its keys
  in sorted order.
\<close>

fun show_nat :: "nat \<Rightarrow> string" where
  "show_nat n = (if n < 10 then [char_of (48 + n)]
                 else show_nat (n div 10) @ [char_of (48 + n mod 10)])"

declare show_nat.simps [simp del]

definition show_int :: "int \<Rightarrow> string" where
  "show_int i = (if i < 0 then CHR ''-'' # show_nat (nat (- i)) else show_nat (nat i))"

definition join_words :: "string list \<Rightarrow> string" where
  "join_words ws = (case ws of [] \<Rightarrow> [] | w # vs \<Rightarrow> w @ concat (map (\<lambda>v. CHR '' '' # v) vs))"

fun string_le :: "string \<Rightarrow> string \<Rightarrow> bool" where
  "string_le [] t = True"
| "string_le (c # s) [] = False"
| "string_le (c # s) (d # t) =
     ((of_char c :: nat) < of_char d \<or> (c = d \<and> string_le s t))"

fun insert_field :: "string \<times> 'a \<Rightarrow> (string \<times> 'a) list \<Rightarrow> (string \<times> 'a) list" where
  "insert_field x [] = [x]"
| "insert_field x (y # ys) = (if string_le (fst x) (fst y) then x # y # ys else y # insert_field x ys)"

definition sort_fields :: "(string \<times> 'a) list \<Rightarrow> (string \<times> 'a) list" where
  "sort_fields xs = foldr insert_field xs []"

primrec fmt_v :: "(gval \<Rightarrow> string) \<Rightarrow> gval \<Rightarrow> string" where
  "fmt_v leaf GNil = ''<nil>''"
| "fmt_v leaf (GBool b) = (if b then ''true'' else ''false'')"
| "fmt_v leaf (GInt i) = show_int i"
| "fmt_v leaf (GFloat r) = leaf (GFloat r)"
| "fmt_v leaf (GString s) = s"
| "fmt_v leaf (GSlice xs) = ''['' @ join_words (map (fmt_v leaf) xs) @ '']''"
| "fmt_v leaf (GMap kvs) =
     ''map['' @ join_words (map (\<lambda>(k, s). k @ '':'' @ s) (sort_fields (map (map_prod id (fmt_v leaf)) kvs)))
     @ '']''"
| "fmt_v leaf (GOpaque n) = leaf (GOpaque n)"

definition DebugRedactor :: "(gval \<Rightarrow> string) \<Rightarrow> Redactor" where
  "DebugRedactor leaf args = fmt_v leaf (GSlice args)"

definition MaskingRedactor :: Redactor where
  "MaskingRedactor args =
     (if length args = 0 then ''[]'' else ''[REDACTED x'' @ show_nat (length args) @ '']'')"

text \<open>
  \<open>strings.EqualFold\<close> on ASCII. Go also folds letters beyond ASCII, so it masks a few more spellings of a
  sensitive key; here their bytes are compared as they are.
\<close>

definition EqualFold :: "string \<Rightarrow> string \<Rightarrow> bool" where
  "EqualFold s t \<longleftrightarrow> ToLower s = ToLower t"

definition isSensitive :: "string list \<Rightarrow> string \<Rightarrow> bool" where
  "isSensitive keys key \<longleftrightarrow> list_ex (EqualFold key) keys"

definition mask_fields :: "string list \<Rightarrow> (string \<times> gval) list \<Rightarrow> (string \<times> gval) list" where
  "mask_fields keys kvs =
     map (\<lambda>(key, value). (key, if isSensitive keys key then GString ''[REDACTED]'' else value)) kvs"

definition mask_arg :: "(gval \<Rightarrow> string) \<Rightarrow> string list \<Rightarrow> gval \<Rightarrow> string" where
  "mask_arg leaf keys arg = (case arg of
      GMap kvs \<Rightarrow> fmt_v leaf (GMap (mask_fields keys kvs))
    | _ \<Rightarrow> ''[REDACTED non-map arg]'')"

definition FieldMaskingRedactor :: "(gval \<Rightarrow> string) \<Rightarrow> string list \<Rightarrow> Redactor" where
  "FieldMaskingRedactor leaf keys args =
     fmt_v leaf (GSlice (map (\<lambda>a. GString (mask_arg leaf keys a)) args))"

definition DefaultRedactor :: Redactor where
  "DefaultRedactor = MaskingRedactor"

section \<open>Lemmas\<close>

lemma clamp_decoded_wf: "wf_job (clamp_decoded j)"
  by (simp add: clamp_decoded_def wf_job_def job_consts Let_def)

lemma clamp_decoded_id: "wf_job j \<Longrightarrow> clamp_decoded j = j"
  by (simp add: clamp_decoded_def wf_job_def Let_def)

lemma NewJob_wf: "wf_job (NewJob jid now class queue args)"
  by (simp add: wf_job_def NewJob_def job_consts)

lemma SetRetry_wf: "wf_job j \<Longrightarrow> wf_job (SetRetry n j)"
  by (simp add: wf_job_def SetRetry_def Let_def job_consts)

lemma SetRetry_clamps: "Retry (SetRetry n j) = max 0 (min 25 n)"
  by (simp add: SetRetry_def Let_def job_consts)

lemma ChainValidator_None: "ChainValidator vs job = None \<longleftrightarrow> (\<forall>v \<in> set vs. v job = None)"
  by (induction vs) (auto split: option.splits)

text \<open>Two argument lists a field-masking redactor must not tell apart.\<close>

definition same_public :: "string list \<Rightarrow> gval \<Rightarrow> gval \<Rightarrow> bool" where
  "same_public keys a b = (case (a, b) of
      (GMap xs, GMap ys) \<Rightarrow>
        list_all2 (\<lambda>x y. fst x = fst y \<and> (snd x = snd y \<or> isSensitive keys (fst x))) xs ys
    | (GMap xs, _) \<Rightarrow> False
    | (_, GMap ys) \<Rightarrow> False
    | _ \<Rightarrow> True)"

lemma mask_fields_cong:
  "list_all2 (\<lambda>x y. fst x = fst y \<and> (snd x = snd y \<or> isSensitive keys (fst x))) xs ys \<Longrightarrow>
   mask_fields keys xs = mask_fields keys ys"
  unfolding mask_fields_def by (induction rule: list_all2_induct) auto

lemma mask_arg_cong: "same_public keys a b \<Longrightarrow> mask_arg leaf keys a = mask_arg leaf keys b"
  by (auto simp: same_public_def mask_arg_def simp del: fmt_v.simps dest: mask_fields_cong
      split: gval.splits)

text \<open>
  C28: the field-masking redactor does not leak. Two argument lists that differ only in the
  values under sensitive keys of their map arguments, and in arguments that are not maps,
  are logged as the same text.
\<close>

theorem field_masking_no_leak:
  assumes "list_all2 (same_public keys) xs ys"
  shows "FieldMaskingRedactor leaf keys xs = FieldMaskingRedactor leaf keys ys"
proof -
  have "map (\<lambda>a. GString (mask_arg leaf keys a)) xs = map (\<lambda>a. GString (mask_arg leaf keys a)) ys"
    using assms by (induction rule: list_all2_induct) (auto simp: mask_arg_cong)
  then show ?thesis by (simp add: FieldMaskingRedactor_def)
qed

theorem field_masking_no_leak_witness:
  "FieldMaskingRedactor (\<lambda>_. []) [''token''] [GMap [(''Token'', GString ''s3cret''), (''id'', GInt 7)]] =
   FieldMaskingRedactor (\<lambda>_. []) [''token''] [GMap [(''Token'', GInt 0), (''id'', GInt 7)]]"
  by (rule field_masking_no_leak) code_simp

text \<open>
  C29: decoding yields well-formed jobs. Whatever bytes arrive and however the JSON decoder
  fills the struct, a job that \<open>FromJSON\<close> returns has its retry limit and its retry count
  between 0 and 25 and a state that is not empty.
\<close>

theorem FromJSON_wf:
  assumes "FromJSON unmarshal data = Inr j"
  shows "wf_job j"
  using assms clamp_decoded_wf by (auto simp: FromJSON_def split: sum.splits)

theorem FromJSON_wf_witness:
  "wf_job (clamp_decoded ((NewJob ''j'' 0 ''C'' ''q'' None)\<lparr>Retry := 99, RetryCount := -4, State := ''''\<rparr>))"
  using FromJSON_wf [of "\<lambda>_. Inr ((NewJob ''j'' 0 ''C'' ''q'' None)\<lparr>Retry := 99, RetryCount := -4, State := ''''\<rparr>)"]
  by (simp add: FromJSON_def)

end
