(* ===== verification/World.thy ===== *)
theory World
  imports Payload Breaker "HOL-Library.Sublist"
begin

text \<open>
  The state the goroutines of one process share, and the pieces of Go's runtime the source
  uses on it. Jobs are handed around as pointers, so they live in a heap and every holder has
  a reference: the in-memory broker, the processor and the metrics events alias the same job.
  What Go leaves open is read from streams of the world, one value per use: the clock, the
  random choice of \<open>select\<close> between ready cases, the order of a \<open>range\<close> over a map, and
  the fresh identifiers of the uuid package. A property that holds for every world holds for
  every behaviour of these sources.
\<close>

section \<open>Contexts, log lines, events\<close>

type_synonym jobref = nat
type_synonym workerref = nat

text \<open>
  \<open>ProcCtx\<close> is the context the processor cancels in \<open>Stop\<close>; \<open>UserCtx n\<close> is a context
  of the embedding program; \<open>WithTimeout c d\<close> ends with \<open>c\<close> or at the instant \<open>d\<close>.
\<close>

datatype ctx = Background | ProcCtx | UserCtx nat | WithTimeout ctx time

datatype level = Debug | Info | Warn | Error

datatype logval = LStr string | LStrs "string list" | LInt int | LDur dur | LErr error | LStack

type_synonym log_entry = "level \<times> string \<times> (string \<times> logval) list"

definition EventJobStarted :: string where "EventJobStarted = ''job_started''"
definition EventJobSucceeded :: string where "EventJobSucceeded = ''job_succeeded''"
definition EventJobFailed :: string where "EventJobFailed = ''job_failed''"
definition EventJobRetryScheduled :: string where "EventJobRetryScheduled = ''job_retry_scheduled''"
definition EventJobMovedToDead :: string where "EventJobMovedToDead = ''job_moved_to_dead''"

lemmas event_types = EventJobStarted_def EventJobSucceeded_def EventJobFailed_def
  EventJobRetryScheduled_def EventJobMovedToDead_def

record JobEvent =
  ev_Type :: string
  ev_Job :: jobref
  ev_Queue :: string
  ev_Duration :: dur
  ev_Err :: "error option"

section \<open>The world\<close>

text \<open>
  \<open>brk\<close> is the state of the broker. \<open>workers\<close> is the process-wide registry of
  \<^verbatim>\<open>worker.go\<close> and \<open>engine_workers\<close> the registry of the engine; a registered worker may
  be the nil interface. \<open>events\<close> is the content of the processor's event channel.
\<close>

record 'b world =
  heap :: "jobref \<Rightarrow> Job"
  next_ref :: jobref
  brk :: 'b
  clock :: "nat \<Rightarrow> time"
  choices :: "nat \<Rightarrow> bool"
  map_orders :: "nat \<Rightarrow> map_order"
  uuids :: "nat \<Rightarrow> string"
  breakers :: "nat \<Rightarrow> CircuitBreaker"
  logs :: "log_entry list"
  events :: "JobEvent list"
  cancelled :: bool
  user_ctx :: "nat \<Rightarrow> ctx_error option"
  workers :: "(string \<times> workerref option) list"
  engine_workers :: "(string \<times> workerref option) list"
  defaultValidator :: "Validator option"
  defaultRedactor :: "Redactor option"

definition time_Now :: "'b world \<Rightarrow> time \<times> 'b world" where
  "time_Now w = (clock w 0, w\<lparr>clock := (\<lambda>i. clock w (Suc i))\<rparr>)"

definition select_choice :: "'b world \<Rightarrow> bool \<times> 'b world" where
  "select_choice w = (choices w 0, w\<lparr>choices := (\<lambda>i. choices w (Suc i))\<rparr>)"

definition range_order :: "'b world \<Rightarrow> map_order \<times> 'b world" where
  "range_order w = (map_orders w 0, w\<lparr>map_orders := (\<lambda>i. map_orders w (Suc i))\<rparr>)"

definition uuid_New :: "'b world \<Rightarrow> string \<times> 'b world" where
  "uuid_New w = (uuids w 0, w\<lparr>uuids := (\<lambda>i. uuids w (Suc i))\<rparr>)"

primrec ctx_Err :: "'b world \<Rightarrow> ctx \<Rightarrow> ctx_error option" where
  "ctx_Err w Background = None"
| "ctx_Err w ProcCtx = (if cancelled w then Some Canceled else None)"
| "ctx_Err w (UserCtx n) = user_ctx w n"
| "ctx_Err w (WithTimeout c d) =
     (case ctx_Err w c of Some e \<Rightarrow> Some e
      | None \<Rightarrow> if d \<le> clock w 0 then Some DeadlineExceeded else None)"

definition log_line :: "level \<Rightarrow> string \<Rightarrow> (string \<times> logval) list \<Rightarrow> 'b world \<Rightarrow> 'b world" where
  "log_line l msg kvs w = w\<lparr>logs := logs w @ [(l, msg, kvs)]\<rparr>"

text \<open>Reading and writing a job through its pointer, and allocating one.\<close>

definition upd_job :: "jobref \<Rightarrow> (Job \<Rightarrow> Job) \<Rightarrow> 'b world \<Rightarrow> 'b world" where
  "upd_job r f w = w\<lparr>heap := (heap w)(r := f (heap w r))\<rparr>"

definition alloc_job :: "Job \<Rightarrow> 'b world \<Rightarrow> jobref \<times> 'b world" where
  "alloc_job j w = (next_ref w, w\<lparr>heap := (heap w)(next_ref w := j), next_ref := Suc (next_ref w)\<rparr>)"

section \<open>Process-wide settings\<close>

definition SetDefaultValidator :: "Validator option \<Rightarrow> 'b world \<Rightarrow> 'b world" where
  "SetDefaultValidator v w = w\<lparr>defaultValidator := v\<rparr>"

definition GetDefaultValidator :: "'b world \<Rightarrow> Validator option" where
  "GetDefaultValidator w = defaultValidator w"

definition SetDefaultRedactor :: "Redactor option \<Rightarrow> 'b world \<Rightarrow> 'b world" where
  "SetDefaultRedactor r w =
     (case r of None \<Rightarrow> w\<lparr>defaultRedactor := Some DefaultRedactor\<rparr>
      | Some r' \<Rightarrow> w\<lparr>defaultRedactor := Some r'\<rparr>)"

definition GetDefaultRedactor :: "'b world \<Rightarrow> Redactor" where
  "GetDefaultRedactor w = (case defaultRedactor w of None \<Rightarrow> DefaultRedactor | Some r \<Rightarrow> r)"

section \<open>Frame equations\<close>

lemma time_Now_sel [frame, simp]:
  "fst (time_Now w) = clock w 0"
  "brk (snd (time_Now w)) = brk w" "heap (snd (time_Now w)) = heap w"
  "next_ref (snd (time_Now w)) = next_ref w" "breakers (snd (time_Now w)) = breakers w"
  "cancelled (snd (time_Now w)) = cancelled w" "logs (snd (time_Now w)) = logs w"
  "events (snd (time_Now w)) = events w"
  by (simp_all add: time_Now_def)

lemma log_line_sel [frame, simp]:
  "brk (log_line l m k w) = brk w" "heap (log_line l m k w) = heap w"
  "next_ref (log_line l m k w) = next_ref w" "breakers (log_line l m k w) = breakers w"
  "cancelled (log_line l m k w) = cancelled w" "clock (log_line l m k w) = clock w"
  "events (log_line l m k w) = events w" "logs (log_line l m k w) = logs w @ [(l, m, k)]"
  "defaultRedactor (log_line l m k w) = defaultRedactor w"
  "defaultValidator (log_line l m k w) = defaultValidator w"
  by (simp_all add: log_line_def)

lemma upd_job_sel [frame, simp]:
  "brk (upd_job r f w) = brk w" "next_ref (upd_job r f w) = next_ref w"
  "breakers (upd_job r f w) = breakers w" "cancelled (upd_job r f w) = cancelled w"
  "clock (upd_job r f w) = clock w" "events (upd_job r f w) = events w"
  "logs (upd_job r f w) = logs w"
  "heap (upd_job r f w) = (heap w)(r := f (heap w r))"
  "defaultRedactor (upd_job r f w) = defaultRedactor w"
  "defaultValidator (upd_job r f w) = defaultValidator w"
  by (simp_all add: upd_job_def)

text \<open>
  The part of a job no operation of the program ever writes after its creation. In
  \<open>same_ids w w'\<close> the two worlds agree on the identity of the jobs of the first, and the log of
  the first has only been written to, and the processor's context has not come back once cancelled.
\<close>

definition identity :: "Job \<Rightarrow> string \<times> string \<times> gval list option \<times> string \<times> string" where
  "identity j = (JID j, Class j, Args j, Queue j, RawPayload j)"

definition same_ids :: "'b world \<Rightarrow> 'b world \<Rightarrow> bool" where
  "same_ids w w' \<longleftrightarrow> next_ref w \<le> next_ref w' \<and>
     (\<forall>r < next_ref w. identity (heap w' r) = identity (heap w r)) \<and> prefix (logs w) (logs w') \<and>
     (cancelled w \<longrightarrow> cancelled w')"

lemma prefix_app [simp]: "prefix xs (xs @ ys)"
  by (rule prefixI [OF refl])

lemma same_ids_refl [simp, intro]: "same_ids w w"
  by (simp add: same_ids_def)

lemma same_ids_trans [trans]: "same_ids u v \<Longrightarrow> same_ids v w \<Longrightarrow> same_ids u w"
  by (auto simp: same_ids_def intro: prefix_order.trans)

lemma same_ids_valid: "same_ids w w' \<Longrightarrow> r < next_ref w \<Longrightarrow> r < next_ref w'"
  by (simp add: same_ids_def)

lemma same_ids_JID: "same_ids w w' \<Longrightarrow> r < next_ref w \<Longrightarrow> JID (heap w' r) = JID (heap w r)"
  by (simp add: same_ids_def identity_def)

lemma same_ids_Queue: "same_ids w w' \<Longrightarrow> r < next_ref w \<Longrightarrow> Queue (heap w' r) = Queue (heap w r)"
  by (simp add: same_ids_def identity_def)

lemma same_ids_RawPayload:
  "same_ids w w' \<Longrightarrow> r < next_ref w \<Longrightarrow> RawPayload (heap w' r) = RawPayload (heap w r)"
  by (simp add: same_ids_def identity_def)

lemma same_ids_alloc: "same_ids w (snd (alloc_job j w))"
  by (simp add: same_ids_def alloc_job_def)

lemma same_ids_heap:
  "heap w' = heap w \<Longrightarrow> next_ref w' = next_ref w \<Longrightarrow> logs w' = logs w \<Longrightarrow>
    cancelled w' = cancelled w \<Longrightarrow> same_ids w w'"
  by (simp add: same_ids_def)

lemma same_ids_upd_job: "identity (f (heap w r)) = identity (heap w r) \<Longrightarrow> same_ids w (upd_job r f w)"
  by (simp add: same_ids_def)

lemma identity_upd [simp]:
  "identity (j\<lparr>State := x\<rparr>) = identity j" "identity (j\<lparr>RetryCount := n\<rparr>) = identity j"
  "identity (j\<lparr>Retry := n\<rparr>) = identity j" "identity (j\<lparr>Backtrace := b\<rparr>) = identity j"
  by (simp_all add: identity_def)

section \<open>A concrete world\<close>

text \<open>
  \<open>start_world b js\<close>: the broker is in state \<open>b\<close>, the jobs \<open>js\<close> are allocated and the
  clock advances by a second per reading. The witnesses are evaluated in such worlds.
\<close>

definition start_world :: "'b \<Rightarrow> Job list \<Rightarrow> 'b world" where
  "start_world b js =
     \<lparr>heap = (\<lambda>r. if r < length js then js ! r else NewJob [] 0 [] [] None), next_ref = length js,
      brk = b, clock = (\<lambda>i. int i * Second), choices = (\<lambda>i. even i), map_orders = (\<lambda>_ _ ks. ks),
      uuids = (\<lambda>i. replicate (Suc i) CHR ''u''), breakers = (\<lambda>_. NewCircuitBreaker demo_cfg),
      logs = [], events = [], cancelled = False, user_ctx = (\<lambda>_. None), workers = [],
      engine_workers = [], defaultValidator = None, defaultRedactor = Some DefaultRedactor\<rparr>"

definition demo_job :: "string \<Rightarrow> Job" where
  "demo_job jid = NewJob jid 0 ''Mail'' ''default'' (Some [])"

lemma start_world_sel [simp]:
  "heap (start_world b js) r = (if r < length js then js ! r else NewJob [] 0 [] [] None)"
  "next_ref (start_world b js) = length js" "brk (start_world b js) = b"
  "clock (start_world b js) i = int i * Second" "events (start_world b js) = []"
  "cancelled (start_world b js) = False" "user_ctx (start_world b js) n = None"
  "logs (start_world b js) = []" "choices (start_world b js) i = even i"
  "breakers (start_world b js) n = NewCircuitBreaker demo_cfg"
  "workers (start_world b js) = []" "engine_workers (start_world b js) = []"
  "defaultValidator (start_world b js) = None"
  by (simp_all add: start_world_def)

lemma demo_job_sel [simp]:
  "JID (demo_job j) = j" "Class (demo_job j) = ''Mail''" "Queue (demo_job j) = ''default''"
  "Retry (demo_job j) = 5" "RetryCount (demo_job j) = 0" "State (demo_job j) = JobStatePending"
  by (simp_all add: demo_job_def NewJob_def)

end
