(* ===== verification/Broker_Interface.thy ===== *)
theory Broker_Interface
  imports World
begin

text \<open>
  The interface \<open>Broker\<close> of \<^verbatim>\<open>internal/broker/broker.go\<close>. A value of the Go interface type
  is a table of its methods over the world; the contract the rest of the program relies on is
  the locale \<open>broker_contract\<close>, and \<open>reliable_broker\<close> adds that the three calls the
  processor makes to record an outcome do not fail.
\<close>

section \<open>The interface\<close>

text \<open>Values of the statistics map \<open>map[string]interface{}\<close> that \<open>GetStats\<close> returns.\<close>

datatype sval =
    SNil
  | SInt64 int
  | SInt int
  | SFloat64 rat
  | SQueues "(string \<times> int) list"
  | SMap "(string \<times> sval) list"
  | SOther

type_synonym 'b result = "error option \<times> 'b world"

text \<open>\<open>bk_Dequeue\<close> and \<open>bk_GetStats\<close> are \<open>None\<close> when the call never returns.\<close>

record 'b Broker =
  bk_Enqueue :: "ctx \<Rightarrow> string \<Rightarrow> jobref \<Rightarrow> 'b world \<Rightarrow> 'b result"
  bk_Dequeue :: "string list \<Rightarrow> dur \<Rightarrow> 'b world \<Rightarrow> ((error + (jobref \<times> string) option) \<times> 'b world) option"
  bk_Ack :: "jobref \<Rightarrow> 'b world \<Rightarrow> 'b result"
  bk_ReapOrphanedJobs :: "dur \<Rightarrow> 'b world \<Rightarrow> (error + jobref list) \<times> 'b world"
  bk_AddToRetry :: "jobref \<Rightarrow> time \<Rightarrow> 'b world \<Rightarrow> 'b result"
  bk_GetRetryJobs :: "int \<Rightarrow> 'b world \<Rightarrow> (error + jobref list) \<times> 'b world"
  bk_RemoveFromRetry :: "jobref \<Rightarrow> 'b world \<Rightarrow> 'b result"
  bk_AddToDead :: "jobref \<Rightarrow> 'b world \<Rightarrow> 'b result"
  bk_GetQueueSize :: "string \<Rightarrow> 'b world \<Rightarrow> (error + int) \<times> 'b world"
  bk_DeleteKey :: "string \<Rightarrow> 'b world \<Rightarrow> 'b result"
  bk_RecordSuccess :: "jobref \<Rightarrow> 'b world \<Rightarrow> 'b result"
  bk_RecordFailure :: "jobref \<Rightarrow> 'b world \<Rightarrow> 'b result"
  bk_GetStats :: "'b world \<Rightarrow> ((error + (string \<times> sval) list) \<times> 'b world) option"
  bk_Ping :: "ctx \<Rightarrow> 'b world \<Rightarrow> 'b result"
  bk_Close :: "'b world \<Rightarrow> 'b result"

record ConnOptions =
  co_Timeout :: dur
  co_UseTLS :: bool
  co_TLSInsecureSkipVerify :: bool
  co_Logger :: bool

text \<open>The lease both brokers give a dequeued job.\<close>

definition DefaultLeaseDuration :: dur where
  "DefaultLeaseDuration = 5 * Minute"

section \<open>Where a broker keeps a job\<close>

text \<open>
  The abstract state of a broker: the identifiers of the jobs that wait in a queue, are
  leased to a worker, wait for a retry, or are dead.
\<close>

record places =
  pending :: "string set"
  leased :: "string set"
  retrying :: "string set"
  buried :: "string set"

definition places_le :: "places \<Rightarrow> places \<Rightarrow> bool" where
  "places_le p q \<longleftrightarrow> pending p \<subseteq> pending q \<and> leased p \<subseteq> leased q \<and>
     retrying p \<subseteq> retrying q \<and> buried p \<subseteq> buried q"

definition held :: "places \<Rightarrow> string set" where
  "held p = pending p \<union> leased p \<union> retrying p \<union> buried p"

lemma places_le_refl [simp, intro]: "places_le p p"
  by (simp add: places_le_def)

lemma places_le_trans [trans]: "places_le p q \<Longrightarrow> places_le q r \<Longrightarrow> places_le p r"
  by (auto simp: places_le_def)

lemma places_le_held: "places_le p q \<Longrightarrow> held p \<subseteq> held q"
  by (auto simp: places_le_def held_def)

text \<open>\<open>unlease_le jid p q\<close>: at most the lease of \<open>jid\<close> is missing in \<open>q\<close>.\<close>

definition unlease_le :: "string \<Rightarrow> places \<Rightarrow> places \<Rightarrow> bool" where
  "unlease_le jid p q \<longleftrightarrow> places_le (p\<lparr>leased := leased p - {jid}\<rparr>) q"

lemma unlease_le_trans1: "places_le p q \<Longrightarrow> unlease_le jid q r \<Longrightarrow> unlease_le jid p r"
  by (auto simp: unlease_le_def places_le_def)

lemma unlease_le_trans2: "unlease_le jid p q \<Longrightarrow> places_le q r \<Longrightarrow> unlease_le jid p r"
  by (auto simp: unlease_le_def places_le_def)

text \<open>\<open>dequeue_le p q\<close>: what is no longer pending in \<open>q\<close> is under lease, the rest is kept.\<close>

definition dequeue_le :: "places \<Rightarrow> places \<Rightarrow> bool" where
  "dequeue_le p q \<longleftrightarrow> pending p \<subseteq> pending q \<union> leased q \<and> leased p \<subseteq> leased q \<and>
     retrying p \<subseteq> retrying q \<and> buried p \<subseteq> buried q"

lemma dequeue_le_refl [simp, intro]: "dequeue_le p p"
  by (auto simp: dequeue_le_def)

lemma dequeue_le_trans [trans]: "dequeue_le p q \<Longrightarrow> dequeue_le q r \<Longrightarrow> dequeue_le p r"
  by (auto simp: dequeue_le_def)

lemma dequeue_le_held: "dequeue_le p q \<Longrightarrow> held p \<subseteq> held q"
  by (auto simp: dequeue_le_def held_def)

text \<open>The job a call of \<open>Dequeue\<close> returned.\<close>

fun dequeued :: "'b world \<Rightarrow> error + (jobref \<times> string) option \<Rightarrow> string set" where
  "dequeued w (Inr (Some (r, q))) = {JID (heap w r)}"
| "dequeued w _ = {}"

section \<open>The contract\<close>

text \<open>
  What every broker promises the processor. \<open>invar\<close> is the broker's own invariant and
  \<open>where_is\<close> its abstraction; \<open>admissible\<close> holds of the jobs a client may create. A call that reports an error may or may not have had its
  effect, as with a lost reply of a remote store. \<open>Ack\<close> and \<open>RemoveFromRetry\<close> take away at
  most the job they name; the jobs that \<open>ReapOrphanedJobs\<close> takes out of the leases are among
  the jobs it returns.
\<close>

abbreviation put_pending :: "string \<Rightarrow> places \<Rightarrow> places" where
  "put_pending jid p \<equiv> p\<lparr>pending := insert jid (pending p)\<rparr>"

abbreviation put_retrying :: "string \<Rightarrow> places \<Rightarrow> places" where
  "put_retrying jid p \<equiv> p\<lparr>retrying := insert jid (retrying p)\<rparr>"

abbreviation put_buried :: "string \<Rightarrow> places \<Rightarrow> places" where
  "put_buried jid p \<equiv> p\<lparr>buried := insert jid (buried p)\<rparr>"

locale broker_contract =
  fixes B :: "'b Broker"
    and where_is :: "'b world \<Rightarrow> places"
    and invar :: "'b world \<Rightarrow> bool"
    and admissible :: "Job \<Rightarrow> bool"
  assumes where_is_cong:
    "brk w' = brk w \<Longrightarrow> next_ref w' = next_ref w \<Longrightarrow> same_ids w w' \<Longrightarrow> invar w \<Longrightarrow>
       where_is w' = where_is w \<and> invar w'"
    and alloc_law:
    "invar w \<Longrightarrow> admissible j \<Longrightarrow>
       where_is (snd (alloc_job j w)) = where_is w \<and> invar (snd (alloc_job j w))"
    and enqueue_law:
    "invar w \<Longrightarrow> r < next_ref w \<Longrightarrow> bk_Enqueue B c q r w = (e, w') \<Longrightarrow>
       invar w' \<and> same_ids w w' \<and>
       (where_is w' = put_pending (JID (heap w r)) (where_is w) \<or> e \<noteq> None \<and> where_is w' = where_is w)"
    and dequeue_law:
    "invar w \<Longrightarrow> bk_Dequeue B qs d w = Some (y, w') \<Longrightarrow>
       invar w' \<and> same_ids w w' \<and> dequeue_le (where_is w) (where_is w') \<and>
       (\<forall>r q. y = Inr (Some (r, q)) \<longrightarrow>
          r < next_ref w' \<and> q \<in> set qs \<and> JID (heap w' r) \<in> leased (where_is w')) \<and>
       (\<forall>v. y = Inr v \<longrightarrow> pending (where_is w) \<subseteq> pending (where_is w') \<union> dequeued w' y)"
    and ack_law:
    "invar w \<Longrightarrow> r < next_ref w \<Longrightarrow> bk_Ack B r w = (e, w') \<Longrightarrow>
       invar w' \<and> same_ids w w' \<and> unlease_le (JID (heap w r)) (where_is w) (where_is w')"
    and add_retry_law:
    "invar w \<Longrightarrow> r < next_ref w \<Longrightarrow> bk_AddToRetry B r t w = (e, w') \<Longrightarrow>
       invar w' \<and> same_ids w w' \<and>
       (where_is w' = put_retrying (JID (heap w r)) (where_is w) \<or> e \<noteq> None \<and> where_is w' = where_is w)"
    and add_dead_law:
    "invar w \<Longrightarrow> r < next_ref w \<Longrightarrow> bk_AddToDead B r w = (e, w') \<Longrightarrow>
       invar w' \<and> same_ids w w' \<and>
       (where_is w' = put_buried (JID (heap w r)) (where_is w) \<or> e \<noteq> None \<and> where_is w' = where_is w)"
    and record_law:
    "invar w \<Longrightarrow> r < next_ref w \<Longrightarrow>
       bk_RecordSuccess B r w = (e, w') \<or> bk_RecordFailure B r w = (e, w') \<Longrightarrow>
       invar w' \<and> same_ids w w' \<and> where_is w' = where_is w"
    and get_retry_law:
    "invar w \<Longrightarrow> bk_GetRetryJobs B n w = (x, w') \<Longrightarrow>
       invar w' \<and> same_ids w w' \<and> where_is w' = where_is w \<and>
       (\<forall>rs. x = Inr rs \<longrightarrow>
          (\<forall>r \<in> set rs. r < next_ref w' \<and> JID (heap w' r) \<in> retrying (where_is w)))"
    and remove_retry_law:
    "invar w \<Longrightarrow> r < next_ref w \<Longrightarrow> bk_RemoveFromRetry B r w = (e, w') \<Longrightarrow>
       invar w' \<and> same_ids w w' \<and>
       places_le ((where_is w)\<lparr>retrying := retrying (where_is w) - {JID (heap w r)}\<rparr>) (where_is w')"
    and reap_law:
    "invar w \<Longrightarrow> bk_ReapOrphanedJobs B d w = (x, w') \<Longrightarrow>
       invar w' \<and> same_ids w w' \<and>
       (\<forall>rs. x = Inr rs \<longrightarrow> (\<forall>r \<in> set rs. r < next_ref w') \<and>
          places_le ((where_is w)\<lparr>leased := leased (where_is w) - JID ` heap w' ` set rs\<rparr>) (where_is w')) \<and>
       (\<forall>e. x = Inl e \<longrightarrow> places_le ((where_is w)\<lparr>leased := {}\<rparr>) (where_is w'))"

text \<open>
  A broker that does not lose replies: recording an outcome succeeds, and a removal or a dequeue that
  reports an error has removed nothing.
\<close>

locale reliable_broker = broker_contract +
  assumes add_retry_succeeds: "fst (bk_AddToRetry B r t w) = None"
    and add_dead_succeeds: "fst (bk_AddToDead B r w) = None"
    and remove_retry_clean:
    "invar w \<Longrightarrow> r < next_ref w \<Longrightarrow> bk_RemoveFromRetry B r w = (Some e, w') \<Longrightarrow>
       places_le (where_is w) (where_is w')"
    and dequeue_clean:
    "invar w \<Longrightarrow> bk_Dequeue B qs d w = Some (Inl e, w') \<Longrightarrow> pending (where_is w) \<subseteq> pending (where_is w')"
    and reap_clean:
    "invar w \<Longrightarrow> bk_ReapOrphanedJobs B d w = (Inl e, w') \<Longrightarrow> places_le (where_is w) (where_is w')"

text \<open>
  \<open>accepts w\<close>: the broker takes jobs in the world \<open>w\<close>, and taking one or reaping does not
  change that.
\<close>

locale accepting_broker = reliable_broker +
  fixes accepts :: "'b world \<Rightarrow> bool"
  assumes accepts_log: "accepts w \<Longrightarrow> accepts (log_line l m k w)"
    and accepts_enqueue: "accepts w \<Longrightarrow> bk_Enqueue B ProcCtx q r w = (e, w') \<Longrightarrow> e = None \<and> accepts w'"
    and accepts_reap: "accepts w \<Longrightarrow> bk_ReapOrphanedJobs B d w = (x, w') \<Longrightarrow> accepts w'"

end
