(* ===== verification/Memory_Broker.thy ===== *)
theory Memory_Broker
  imports Broker_Interface
begin

text \<open>
  The in-memory broker of \<^verbatim>\<open>internal/broker/memory.go\<close>. Every method but \<open>Dequeue\<close> holds
  the mutex from its first to its last access, so it is one function on the world;
  \<open>Dequeue\<close> takes the mutex once per poll, and \<open>mem_scan\<close> is such a poll.
\<close>

section \<open>State\<close>

record processingEntry =
  pe_Job :: jobref
  pe_Queue :: string
  LeaseExp :: time

record retryEntry =
  re_Job :: jobref
  RetryAt :: time

text \<open>\<open>done\<close> says whether the channel \<open>m.done\<close> has been closed.\<close>

record InMemoryBroker =
  queues :: "(string \<times> jobref list) list"
  processing :: "processingEntry list"
  retry :: "retryEntry list"
  dead :: "jobref list"
  processed :: int
  failed :: int
  is_done :: bool

type_synonym mem_world = "InMemoryBroker world"

definition NewInMemoryBroker :: InMemoryBroker where
  "NewInMemoryBroker = \<lparr>queues = [], processing = [], retry = [], dead = [], processed = 0,
     failed = 0, is_done = False\<rparr>"

text \<open>\<open>m.queues[q]\<close>: a missing key reads as the nil slice.\<close>

definition queue_of :: "InMemoryBroker \<Rightarrow> string \<Rightarrow> jobref list" where
  "queue_of m q = (case map_of (queues m) q of None \<Rightarrow> [] | Some l \<Rightarrow> l)"

definition set_queue :: "string \<Rightarrow> jobref list \<Rightarrow> InMemoryBroker \<Rightarrow> InMemoryBroker" where
  "set_queue q l m = m\<lparr>queues := AList.update q l (queues m)\<rparr>"

section \<open>Operations\<close>

definition mem_Enqueue :: "ctx \<Rightarrow> string \<Rightarrow> jobref \<Rightarrow> mem_world \<Rightarrow> InMemoryBroker result" where
  "mem_Enqueue ctx q r w =
     (case ctx_Err w ctx of
        Some e \<Rightarrow>
          if is_done (brk w) then
            (let (c, w1) = select_choice w in (Some (if c then CtxErr e else BrokerClosed), w1))
          else (Some (CtxErr e), w)
      | None \<Rightarrow>
          if is_done (brk w) then (Some BrokerClosed, w)
          else (None, w\<lparr>brk := set_queue q (queue_of (brk w) q @ [r]) (brk w)\<rparr>))"

text \<open>\<open>time.Duration\<close> division truncates towards zero.\<close>

definition dur_div :: "dur \<Rightarrow> int \<Rightarrow> dur" where
  "dur_div d n = sgn d * (\<bar>d\<bar> div n)"

definition poll_tick :: "dur \<Rightarrow> dur" where
  "poll_tick timeout =
     (let tick = 5 * Millisecond in
      if tick > dur_div timeout 4 then
        (let tick = dur_div timeout 4 in if tick < Millisecond then Millisecond else tick)
      else tick)"

text \<open>One poll: the first queue with a job loses its head to the processing set.\<close>

fun mem_scan :: "string list \<Rightarrow> mem_world \<Rightarrow> ((jobref \<times> string) \<times> mem_world) option" where
  "mem_scan [] w = None"
| "mem_scan (q # qs) w =
     (case queue_of (brk w) q of
        r # rs \<Rightarrow>
          (let m1 = set_queue q rs (brk w);
               (now, w1) = time_Now w
           in Some ((r, q), w1\<lparr>brk := m1\<lparr>processing := processing m1 @
                 [\<lparr>pe_Job = r, pe_Queue = q, LeaseExp = now + DefaultLeaseDuration\<rparr>]\<rparr>\<rparr>))
      | [] \<Rightarrow> mem_scan qs w)"

text \<open>
  The polling loop. When \<open>m.done\<close> is closed the final \<open>select\<close> may still pick a
  tick that is ready at the same time.
\<close>

partial_function (option) mem_poll ::
  "string list \<Rightarrow> time \<Rightarrow> mem_world \<Rightarrow> ((jobref \<times> string) option \<times> mem_world) option" where
  "mem_poll qs deadline w =
     (case mem_scan qs w of
        Some (x, w1) \<Rightarrow> Some (Some x, w1)
      | None \<Rightarrow>
          (let (now, w1) = time_Now w in
           if deadline < now then Some (None, w1)
           else if is_done (brk w1) \<and> fst (select_choice w1) then Some (None, snd (select_choice w1))
           else if is_done (brk w1) then mem_poll qs deadline (snd (select_choice w1))
           else mem_poll qs deadline w1))"

definition mem_Dequeue ::
  "string list \<Rightarrow> dur \<Rightarrow> mem_world \<Rightarrow> ((error + (jobref \<times> string) option) \<times> mem_world) option" where
  "mem_Dequeue qs timeout w =
     (let (now, w1) = time_Now w in
      map_option (\<lambda>(x, w2). (Inr x, w2)) (mem_poll qs (now + timeout) w1))"

definition mem_Ack :: "jobref \<Rightarrow> mem_world \<Rightarrow> InMemoryBroker result" where
  "mem_Ack r w = (None, w\<lparr>brk := (brk w)\<lparr>processing :=
     remove_first (\<lambda>e. JID (heap w (pe_Job e)) = JID (heap w r)) (processing (brk w))\<rparr>\<rparr>)"

fun reap_split :: "time \<Rightarrow> processingEntry list \<Rightarrow> jobref list \<times> processingEntry list" where
  "reap_split now [] = ([], [])"
| "reap_split now (e # es) =
     (let (orphaned, remaining) = reap_split now es in
      if LeaseExp e < now then (pe_Job e # orphaned, remaining) else (orphaned, e # remaining))"

definition mem_ReapOrphanedJobs :: "dur \<Rightarrow> mem_world \<Rightarrow> (error + jobref list) \<times> mem_world" where
  "mem_ReapOrphanedJobs _ w =
     (let (now, w1) = time_Now w;
          (orphaned, remaining) = reap_split now (processing (brk w1))
      in (Inr orphaned,
          (fold (\<lambda>r. upd_job r (\<lambda>j. j\<lparr>State := JobStatePending\<rparr>)) orphaned w1)
            \<lparr>brk := (brk w1)\<lparr>processing := remaining\<rparr>\<rparr>))"

definition mem_AddToRetry :: "jobref \<Rightarrow> time \<Rightarrow> mem_world \<Rightarrow> InMemoryBroker result" where
  "mem_AddToRetry r retryAt w =
     (None, w\<lparr>brk := (brk w)\<lparr>retry := retry (brk w) @ [\<lparr>re_Job = r, RetryAt = retryAt\<rparr>]\<rparr>\<rparr>)"

text \<open>The collecting loop of \<open>GetRetryJobs\<close>: \<open>out\<close> holds the jobs found so far.\<close>

fun due_jobs :: "time \<Rightarrow> int \<Rightarrow> retryEntry list \<Rightarrow> jobref list \<Rightarrow> jobref list" where
  "due_jobs now limit [] out = out"
| "due_jobs now limit (e # es) out =
     (if int (length out) < limit
      then due_jobs now limit es (if \<not> now < RetryAt e then out @ [re_Job e] else out)
      else out)"

definition mem_GetRetryJobs :: "int \<Rightarrow> mem_world \<Rightarrow> (error + jobref list) \<times> mem_world" where
  "mem_GetRetryJobs limit w =
     (if limit \<le> 0 then (Inr [], w)
      else let (now, w1) = time_Now w in (Inr (due_jobs now limit (retry (brk w1)) []), w1))"

definition mem_RemoveFromRetry :: "jobref \<Rightarrow> mem_world \<Rightarrow> InMemoryBroker result" where
  "mem_RemoveFromRetry r w = (None, w\<lparr>brk := (brk w)\<lparr>retry :=
     remove_first (\<lambda>e. JID (heap w (re_Job e)) = JID (heap w r)) (retry (brk w))\<rparr>\<rparr>)"

definition mem_AddToDead :: "jobref \<Rightarrow> mem_world \<Rightarrow> InMemoryBroker result" where
  "mem_AddToDead r w = (None, w\<lparr>brk := (brk w)\<lparr>dead := dead (brk w) @ [r]\<rparr>\<rparr>)"

definition mem_GetQueueSize :: "string \<Rightarrow> mem_world \<Rightarrow> (error + int) \<times> mem_world" where
  "mem_GetQueueSize q w = (Inr (int (length (queue_of (brk w) q))), w)"

definition mem_DeleteKey :: "string \<Rightarrow> mem_world \<Rightarrow> InMemoryBroker result" where
  "mem_DeleteKey key w =
     (if \<not> HasPrefix key ''queue:'' then (Some (DeleteKeyRestricted key), w)
      else (None, w\<lparr>brk := (brk w)\<lparr>queues := AList.delete (drop 6 key) (queues (brk w))\<rparr>\<rparr>))"

definition mem_RecordSuccess :: "jobref \<Rightarrow> mem_world \<Rightarrow> InMemoryBroker result" where
  "mem_RecordSuccess _ w = (None, w\<lparr>brk := (brk w)\<lparr>processed := wrap64 (processed (brk w) + 1)\<rparr>\<rparr>)"

definition mem_RecordFailure :: "jobref \<Rightarrow> mem_world \<Rightarrow> InMemoryBroker result" where
  "mem_RecordFailure _ w = (None, w\<lparr>brk := (brk w)\<lparr>failed := wrap64 (failed (brk w) + 1)\<rparr>\<rparr>)"

definition mem_GetStats :: "mem_world \<Rightarrow> ((error + (string \<times> sval) list) \<times> mem_world) option" where
  "mem_GetStats w =
     (let m = brk w in
      Some (Inr [(''processed'', SInt64 (processed m)),
            (''failed'', SInt64 (failed m)),
            (''processing'', SInt64 (int (length (processing m)))),
            (''retry'', SInt64 (int (length (retry m)))),
            (''dead'', SInt64 (int (length (dead m)))),
            (''queues'', SQueues (map (\<lambda>(q, l). (q, int (length l))) (queues m)))], w))"

definition mem_Ping :: "ctx \<Rightarrow> mem_world \<Rightarrow> InMemoryBroker result" where
  "mem_Ping ctx w =
     (case ctx_Err w ctx of
        Some e \<Rightarrow> (Some (CtxErr e), w)
      | None \<Rightarrow> if is_done (brk w) then (Some BrokerClosed, w) else (None, w))"

definition mem_Close :: "mem_world \<Rightarrow> InMemoryBroker result" where
  "mem_Close w = (if is_done (brk w) then (None, w) else (None, w\<lparr>brk := (brk w)\<lparr>is_done := True\<rparr>\<rparr>))"

definition mem_RetryJobs :: "mem_world \<Rightarrow> jobref list" where
  "mem_RetryJobs w = map re_Job (retry (brk w))"

definition mem_ProcessingJobs :: "mem_world \<Rightarrow> jobref list" where
  "mem_ProcessingJobs w = map pe_Job (processing (brk w))"

definition mem_DeadJobs :: "mem_world \<Rightarrow> jobref list" where
  "mem_DeadJobs w = dead (brk w)"

text \<open>The method table of the in-memory broker.\<close>

definition memB :: "InMemoryBroker Broker" where
  "memB = \<lparr>bk_Enqueue = mem_Enqueue, bk_Dequeue = mem_Dequeue, bk_Ack = mem_Ack,
     bk_ReapOrphanedJobs = mem_ReapOrphanedJobs, bk_AddToRetry = mem_AddToRetry,
     bk_GetRetryJobs = mem_GetRetryJobs, bk_RemoveFromRetry = mem_RemoveFromRetry,
     bk_AddToDead = mem_AddToDead, bk_GetQueueSize = mem_GetQueueSize, bk_DeleteKey = mem_DeleteKey,
     bk_RecordSuccess = mem_RecordSuccess, bk_RecordFailure = mem_RecordFailure,
     bk_GetStats = mem_GetStats, bk_Ping = mem_Ping, bk_Close = mem_Close\<rparr>"

section \<open>Invariant and abstraction\<close>

definition queued_refs :: "InMemoryBroker \<Rightarrow> jobref set" where
  "queued_refs m = (\<Union>q. set (queue_of m q))"

definition mem_places :: "mem_world \<Rightarrow> places" where
  "mem_places w =
     \<lparr>pending = JID ` heap w ` queued_refs (brk w),
      leased = JID ` heap w ` pe_Job ` set (processing (brk w)),
      retrying = JID ` heap w ` re_Job ` set (retry (brk w)),
      buried = JID ` heap w ` set (dead (brk w))\<rparr>"

definition mem_refs :: "InMemoryBroker \<Rightarrow> jobref set" where
  "mem_refs m = queued_refs m \<union> pe_Job ` set (processing m) \<union> re_Job ` set (retry m) \<union> set (dead m)"

definition mem_invar :: "mem_world \<Rightarrow> bool" where
  "mem_invar w \<longleftrightarrow> (\<forall>r \<in> mem_refs (brk w). r < next_ref w)"

text \<open>The broker takes jobs until the processor is cancelled or the broker is closed.\<close>

definition mem_accepts :: "mem_world \<Rightarrow> bool" where
  "mem_accepts w \<longleftrightarrow> \<not> cancelled w \<and> \<not> is_done (brk w)"

section \<open>What the operations mean\<close>

text \<open>
  The job a poll of the queues \<open>qs\<close> finds, and the broker after its lease began at \<open>now\<close>.
\<close>

definition first_job :: "string list \<Rightarrow> InMemoryBroker \<Rightarrow> (jobref \<times> string) option" where
  "first_job qs m =
     (case filter (\<lambda>q. queue_of m q \<noteq> []) qs of
        [] \<Rightarrow> None
      | q # _ \<Rightarrow> Some (hd (queue_of m q), q))"

definition take_lease :: "jobref \<times> string \<Rightarrow> time \<Rightarrow> InMemoryBroker \<Rightarrow> InMemoryBroker" where
  "take_lease x now m =
     (case x of (r, q) \<Rightarrow>
        (set_queue q (tl (queue_of m q)) m)\<lparr>processing := processing m @
          [\<lparr>pe_Job = r, pe_Queue = q, LeaseExp = now + DefaultLeaseDuration\<rparr>]\<rparr>)"

text \<open>Sequences of calls, and the identifiers under lease in order.\<close>

fun mem_enqueue_all :: "ctx \<Rightarrow> string \<Rightarrow> jobref list \<Rightarrow> mem_world \<Rightarrow> mem_world" where
  "mem_enqueue_all ctx q [] w = w"
| "mem_enqueue_all ctx q (r # rs) w = mem_enqueue_all ctx q rs (snd (mem_Enqueue ctx q r w))"

fun mem_dequeue_n :: "nat \<Rightarrow> string list \<Rightarrow> dur \<Rightarrow> mem_world \<Rightarrow> (jobref list \<times> mem_world) option" where
  "mem_dequeue_n 0 qs timeout w = Some ([], w)"
| "mem_dequeue_n (Suc n) qs timeout w =
     (case mem_Dequeue qs timeout w of
        Some (Inr (Some (r, q)), w1) \<Rightarrow>
          map_option (\<lambda>(rs, w2). (r # rs, w2)) (mem_dequeue_n n qs timeout w1)
      | _ \<Rightarrow> None)"

definition processing_ids :: "mem_world \<Rightarrow> string list" where
  "processing_ids w = map (\<lambda>e. JID (heap w (pe_Job e))) (processing (brk w))"

text \<open>Concrete worlds: one job waiting, and two jobs under lease.\<close>

definition demo_queued :: mem_world where
  "demo_queued = start_world (NewInMemoryBroker\<lparr>queues := [(''default'', [0])]\<rparr>)
     [demo_job ''a'', demo_job ''b'', demo_job ''c'']"

definition demo_leased :: mem_world where
  "demo_leased = start_world (NewInMemoryBroker\<lparr>processing :=
     [\<lparr>pe_Job = 0, pe_Queue = ''default'', LeaseExp = 300 * Second\<rparr>,
      \<lparr>pe_Job = 1, pe_Queue = ''default'', LeaseExp = 400 * Second\<rparr>]\<rparr>) [demo_job ''a'', demo_job ''b'']"

section \<open>Lemmas\<close>

lemma queue_of_set_queue [simp]: "queue_of (set_queue q l m) p = (if p = q then l else queue_of m p)"
  by (simp add: queue_of_def set_queue_def update_conv')

lemma set_queue_sel [simp]:
  "processing (set_queue q l m) = processing m" "retry (set_queue q l m) = retry m"
  "dead (set_queue q l m) = dead m" "processed (set_queue q l m) = processed m"
  "failed (set_queue q l m) = failed m" "is_done (set_queue q l m) = is_done m"
  by (simp_all add: set_queue_def)

lemma queue_of_upd [simp]:
  "queue_of (m\<lparr>processing := x\<rparr>) = queue_of m" "queue_of (m\<lparr>retry := y\<rparr>) = queue_of m"
  "queue_of (m\<lparr>dead := d\<rparr>) = queue_of m" "queue_of (m\<lparr>processed := n\<rparr>) = queue_of m"
  "queue_of (m\<lparr>failed := n\<rparr>) = queue_of m" "queue_of (m\<lparr>is_done := b\<rparr>) = queue_of m"
  by (simp_all add: queue_of_def fun_eq_iff)

lemma queued_refs_upd [simp]:
  "queued_refs (m\<lparr>processing := x\<rparr>) = queued_refs m" "queued_refs (m\<lparr>retry := y\<rparr>) = queued_refs m"
  "queued_refs (m\<lparr>dead := d\<rparr>) = queued_refs m" "queued_refs (m\<lparr>processed := n\<rparr>) = queued_refs m"
  "queued_refs (m\<lparr>failed := n\<rparr>) = queued_refs m" "queued_refs (m\<lparr>is_done := b\<rparr>) = queued_refs m"
  by (simp_all add: queued_refs_def)

lemma queued_refs_enqueue [simp]:
  "queued_refs (set_queue q (queue_of m q @ [r]) m) = insert r (queued_refs m)"
  by (auto simp: queued_refs_def split: if_splits)

lemma JID_image_cong:
  "same_ids w w' \<Longrightarrow> \<forall>r \<in> A. r < next_ref w \<Longrightarrow> JID ` heap w' ` A = JID ` heap w ` A"
  by (force simp: same_ids_JID image_iff)

lemma mem_places_cong:
  assumes "brk w' = brk w" "same_ids w w'" "mem_invar w"
  shows "mem_places w' = mem_places w \<and> mem_invar w'"
  using assms JID_image_cong [OF assms(2)]
  by (auto simp: mem_places_def mem_invar_def mem_refs_def intro: same_ids_valid)

lemma upd_jobs_sel [simp]:
  "logs (fold (\<lambda>r. upd_job r f) rs w) = logs w"
  "brk (fold (\<lambda>r. upd_job r f) rs w) = brk w"
  "next_ref (fold (\<lambda>r. upd_job r f) rs w) = next_ref w"
  by (induction rs arbitrary: w) simp_all

lemma same_ids_upd_jobs:
  "(\<And>j. identity (f j) = identity j) \<Longrightarrow> same_ids w (fold (\<lambda>r. upd_job r f) rs w)"
  by (induction rs arbitrary: w) (auto intro: same_ids_trans [OF same_ids_upd_job])

lemma reap_split_eq:
  "reap_split now es =
     (map pe_Job (filter (\<lambda>e. LeaseExp e < now) es), filter (\<lambda>e. \<not> LeaseExp e < now) es)"
  by (induction es) auto

lemma due_jobs_set: "set (due_jobs now limit es out) \<subseteq> set out \<union> re_Job ` set es"
  by (induction now limit es out rule: due_jobs.induct) auto

text \<open>The in-memory broker keeps the contract.\<close>

lemma mem_enqueue_contract:
  assumes "mem_invar w" "r < next_ref w" "mem_Enqueue c q r w = (e, w')"
  shows "mem_invar w' \<and> same_ids w w' \<and>
    (mem_places w' = put_pending (JID (heap w r)) (mem_places w) \<or> e \<noteq> None \<and> mem_places w' = mem_places w)"
  using assms
  by (auto simp: mem_Enqueue_def mem_places_def mem_invar_def mem_refs_def select_choice_def Let_def
      intro: same_ids_heap split: option.splits if_splits)

lemma mem_reap_contract:
  assumes "mem_invar w" "mem_ReapOrphanedJobs d w = (x, w')"
  shows "mem_invar w' \<and> same_ids w w' \<and>
       (\<forall>rs. x = Inr rs \<longrightarrow> (\<forall>r \<in> set rs. r < next_ref w') \<and>
          places_le ((mem_places w)\<lparr>leased := leased (mem_places w) - JID ` heap w' ` set rs\<rparr>) (mem_places w')) \<and>
       (\<forall>e. x = Inl e \<longrightarrow> False)"
proof -
  let ?now = "clock w 0"
  let ?gone = "filter (\<lambda>e. LeaseExp e < ?now) (processing (brk w))"
  let ?stay = "filter (\<lambda>e. \<not> LeaseExp e < ?now) (processing (brk w))"
  let ?mark = "\<lambda>r. upd_job r (\<lambda>j. j\<lparr>State := JobStatePending\<rparr>)"
  let ?w1 = "snd (time_Now w)"
  have x: "x = Inr (map pe_Job ?gone)"
    and w': "w' = (fold ?mark (map pe_Job ?gone) ?w1)\<lparr>brk := (brk w)\<lparr>processing := ?stay\<rparr>\<rparr>"
    using assms(2) by (auto simp: mem_ReapOrphanedJobs_def Let_def reap_split_eq time_Now_def)
  have "same_ids ?w1 (fold ?mark (map pe_Job ?gone) ?w1)"
    by (rule same_ids_upd_jobs) simp
  then have ids: "same_ids w w'"
    using w' by (simp add: same_ids_def)
  have refs: "mem_refs (brk w') \<subseteq> mem_refs (brk w)" and nr: "next_ref w' = next_ref w"
    using w' by (auto simp: mem_refs_def)
  have inv: "mem_invar w'" using assms(1) refs nr by (auto simp: mem_invar_def)
  have jid: "JID (heap w' r) = JID (heap w r)" if "r \<in> mem_refs (brk w)" for r
    using assms(1) that ids by (auto simp: mem_invar_def same_ids_JID)
  have "places_le ((mem_places w)\<lparr>leased := leased (mem_places w) - JID ` heap w' ` pe_Job ` set ?gone\<rparr>) (mem_places w')"
    using w' jid by (auto simp: places_le_def mem_places_def mem_refs_def image_iff) force
  with x ids inv assms(1) nr show ?thesis
    by (auto simp: mem_invar_def mem_refs_def image_image)
qed

lemma mem_get_retry_contract:
  assumes "mem_invar w" "mem_GetRetryJobs n w = (x, w')"
  shows "mem_invar w' \<and> same_ids w w' \<and> mem_places w' = mem_places w \<and>
       (\<forall>rs. x = Inr rs \<longrightarrow>
          (\<forall>r \<in> set rs. r < next_ref w' \<and> JID (heap w' r) \<in> retrying (mem_places w)))"
  using assms due_jobs_set [of "clock w 0" n "retry (brk w)" "[]"]
  by (auto simp: mem_GetRetryJobs_def time_Now_def Let_def mem_places_def mem_invar_def mem_refs_def
      same_ids_def split: if_splits)

lemma remove_first_image: "f ` set xs - {k} \<subseteq> f ` set (remove_first (\<lambda>x. f x = k) xs)"
  by (induction xs) auto

lemma mem_ack_contract:
  assumes "mem_invar w" "r < next_ref w" "mem_Ack r w = (e, w')"
  shows "mem_invar w' \<and> same_ids w w' \<and> unlease_le (JID (heap w r)) (mem_places w) (mem_places w')"
proof -
  let ?f = "\<lambda>e. JID (heap w (pe_Job e))"
  let ?ps = "remove_first (\<lambda>e. ?f e = JID (heap w r)) (processing (brk w))"
  from assms(3) have w': "w' = w\<lparr>brk := (brk w)\<lparr>processing := ?ps\<rparr>\<rparr>"
    by (simp add: mem_Ack_def)
  have "?f ` set (processing (brk w)) - {JID (heap w r)} \<subseteq> ?f ` set ?ps"
    by (rule remove_first_image)
  moreover have "set ?ps \<subseteq> set (processing (brk w))" by (rule set_remove_first)
  ultimately show ?thesis
    using assms(1) w'
    by (auto simp: mem_places_def mem_invar_def mem_refs_def unlease_le_def places_le_def
        same_ids_def image_image)
qed

lemma mem_remove_retry_contract:
  assumes "mem_invar w" "r < next_ref w" "mem_RemoveFromRetry r w = (e, w')"
  shows "mem_invar w' \<and> same_ids w w' \<and>
       places_le ((mem_places w)\<lparr>retrying := retrying (mem_places w) - {JID (heap w r)}\<rparr>) (mem_places w')"
proof -
  let ?f = "\<lambda>e. JID (heap w (re_Job e))"
  let ?rs = "remove_first (\<lambda>e. ?f e = JID (heap w r)) (retry (brk w))"
  from assms(3) have w': "e = None" "w' = w\<lparr>brk := (brk w)\<lparr>retry := ?rs\<rparr>\<rparr>"
    by (simp_all add: mem_RemoveFromRetry_def)
  have "?f ` set (retry (brk w)) - {JID (heap w r)} \<subseteq> ?f ` set ?rs"
    by (rule remove_first_image)
  moreover have "set ?rs \<subseteq> set (retry (brk w))" by (rule set_remove_first)
  ultimately show ?thesis
    using assms(1) w'
    by (auto simp: mem_places_def mem_invar_def mem_refs_def places_le_def same_ids_def image_image)
qed

lemma mem_scan_effect:
  assumes "mem_scan qs w = Some ((r, q), w')"
  shows "q \<in> set qs \<and> heap w' = heap w \<and> next_ref w' = next_ref w \<and> logs w' = logs w \<and> cancelled w' = cancelled w \<and>
    (\<exists>rs now. queue_of (brk w) q = r # rs \<and>
       brk w' = (set_queue q rs (brk w))\<lparr>processing := processing (brk w) @
         [\<lparr>pe_Job = r, pe_Queue = q, LeaseExp = now\<rparr>]\<rparr>)"
  using assms by (induction qs) (auto simp: time_Now_def split: list.splits)

lemma mem_poll_effect:
  assumes "mem_poll qs dl w = Some z"
  shows "\<exists>w1. brk w1 = brk w \<and> heap w1 = heap w \<and> next_ref w1 = next_ref w \<and> logs w1 = logs w \<and>
    cancelled w1 = cancelled w \<and>
    (fst z = None \<longrightarrow> brk (snd z) = brk w \<and> heap (snd z) = heap w \<and> next_ref (snd z) = next_ref w \<and>
       logs (snd z) = logs w \<and> cancelled (snd z) = cancelled w) \<and>
    (\<forall>y. fst z = Some y \<longrightarrow> mem_scan qs w1 = Some (y, snd z))"
  using assms
proof (induction qs dl w z rule: mem_poll.raw_induct [rotated 1, consumes 1, case_names step])
  case (step f qs dl w z)
  show ?case
  proof (cases "mem_scan qs w")
    case None
    with step(2) step(1) [of qs dl "snd (time_Now w)" z]
      step(1) [of qs dl "snd (select_choice (snd (time_Now w)))" z] show ?thesis
      by (auto simp: case_prod_beta Let_def select_choice_def split: if_splits)
  next
    case (Some a)
    with step(2) show ?thesis by (intro exI [of _ w]) (auto split: prod.splits)
  qed
qed

lemma mem_dequeue_contract:
  assumes inv: "mem_invar w" and deq: "mem_Dequeue qs d w = Some (x, w')"
  shows "mem_invar w' \<and> same_ids w w' \<and> dequeue_le (mem_places w) (mem_places w') \<and>
       (\<forall>r q. x = Inr (Some (r, q)) \<longrightarrow>
          r < next_ref w' \<and> q \<in> set qs \<and> JID (heap w' r) \<in> leased (mem_places w')) \<and>
       (\<exists>v. x = Inr v) \<and> pending (mem_places w) \<subseteq> pending (mem_places w') \<union> dequeued w' x"
proof -
  obtain y where y: "x = Inr y" "mem_poll qs (clock w 0 + d) (snd (time_Now w)) = Some (y, w')"
    using deq by (auto simp: mem_Dequeue_def case_prod_beta)
  from mem_poll_effect [OF y(2)] obtain w1 where w1: "brk w1 = brk w" "heap w1 = heap w"
    "next_ref w1 = next_ref w" "logs w1 = logs w" "cancelled w1 = cancelled w"
    "y = None \<longrightarrow> brk w' = brk w \<and> heap w' = heap w \<and> next_ref w' = next_ref w \<and> logs w' = logs w \<and>
       cancelled w' = cancelled w"
    "\<forall>x. y = Some x \<longrightarrow> mem_scan qs w1 = Some (x, w')" by auto
  show ?thesis
  proof (cases y)
    case None
    with w1 y inv show ?thesis by (auto simp: mem_places_def mem_invar_def same_ids_def)
  next
    case (Some z)
    obtain r q where z: "z = (r, q)" by (cases z)
    from mem_scan_effect [of qs w1 r q w'] w1 Some z obtain rs now where e: "q \<in> set qs"
      "heap w' = heap w" "next_ref w' = next_ref w" "queue_of (brk w) q = r # rs"
      "brk w' = (set_queue q rs (brk w))\<lparr>processing := processing (brk w) @
         [\<lparr>pe_Job = r, pe_Queue = q, LeaseExp = now\<rparr>]\<rparr>" "logs w' = logs w" "cancelled w' = cancelled w" by auto
    have q: "queued_refs (brk w') \<subseteq> queued_refs (brk w)" "queued_refs (brk w) \<subseteq> insert r (queued_refs (brk w'))"
      "r \<in> queued_refs (brk w)"
      using e(4,5) by (auto simp: queued_refs_def split: if_splits)
         (metis list.set_intros set_ConsD)+
    with e inv have "mem_invar w'" by (auto simp: mem_invar_def mem_refs_def)
    moreover have "dequeue_le (mem_places w) (mem_places w')"
      using q e by (auto simp: dequeue_le_def mem_places_def)
    ultimately show ?thesis
      using e q inv y Some z by (auto simp: mem_places_def mem_invar_def mem_refs_def intro: same_ids_heap)
  qed
qed

lemma cancelled_upd_jobs [simp]: "cancelled (fold (\<lambda>r. upd_job r f) rs w) = cancelled w"
  by (induction rs arbitrary: w) simp_all

interpretation mem: accepting_broker memB mem_places mem_invar "\<lambda>_. True" mem_accepts
proof (unfold_locales, goal_cases)
  case (1 w' w)
  then show ?case by (intro mem_places_cong)
next
  case (2 w j)
  have "mem_places (w\<lparr>heap := (heap w)(next_ref w := j), next_ref := Suc (next_ref w)\<rparr>) = mem_places w \<and>
    mem_invar (w\<lparr>heap := (heap w)(next_ref w := j), next_ref := Suc (next_ref w)\<rparr>)"
    using 2 by (intro mem_places_cong) (auto simp: same_ids_def)
  then show ?case by (simp add: alloc_job_def)
next
  case (3 w r c q e w')
  then show ?case using mem_enqueue_contract by (simp add: memB_def)
next
  case (4 w qs d x w')
  then show ?case using mem_dequeue_contract [of w qs d x w'] by (auto simp: memB_def)
next
  case (5 w r e w')
  then show ?case using mem_ack_contract by (simp add: memB_def)
next
  case (9 w n x w')
  then show ?case using mem_get_retry_contract by (simp add: memB_def)
next
  case (10 w r e w')
  then show ?case using mem_remove_retry_contract by (simp add: memB_def)
next
  case (11 w d x w')
  then show ?case using mem_reap_contract by (fastforce simp: memB_def)
next
  case (15 w qs d e w')
  then show ?case using mem_dequeue_contract [of w qs d "Inl e" w'] by (simp add: memB_def)
next
  case (16 w d e w')
  then show ?case using mem_reap_contract by (fastforce simp: memB_def)
next
  case (18 w q r e w')
  then show ?case by (auto simp: memB_def mem_Enqueue_def mem_accepts_def)
next
  case (19 w d x w')
  then show ?case
    by (auto simp: memB_def mem_ReapOrphanedJobs_def mem_accepts_def Let_def time_Now_def split: prod.splits)
qed (auto simp: mem_accepts_def memB_def mem_AddToRetry_def mem_AddToDead_def mem_RecordSuccess_def
    mem_RecordFailure_def mem_RemoveFromRetry_def mem_places_def mem_invar_def mem_refs_def same_ids_def)

section \<open>Properties\<close>

subsection \<open>Retry set\<close>

lemma due_jobs_eq:
  "int (length out) \<le> limit \<Longrightarrow>
   due_jobs now limit es out =
     out @ take (nat limit - length out) (map re_Job (filter (\<lambda>e. RetryAt e \<le> now) es))"
proof (induction now limit es out rule: due_jobs.induct)
  case (2 now limit e es out)
  show ?case
  proof (cases "int (length out) < limit")
    case True
    then have "nat limit - length out = Suc (nat limit - Suc (length out))" by linarith
    with 2 True show ?thesis by (cases "RetryAt e \<le> now") (auto simp: not_less)
  next
    case False
    with 2 show ?thesis by simp
  qed
qed simp

text \<open>
  The collecting loop of \<open>GetRetryJobs\<close> with its early exit is the first
  \<open>limit\<close> due jobs in the order they were added, for every limit (a limit of 0 or less gives
  none).
\<close>

lemma mem_GetRetryJobs_spec:
  "fst (mem_GetRetryJobs limit w) =
     Inr (take (nat limit) (map re_Job (filter (\<lambda>e. RetryAt e \<le> clock w 0) (retry (brk w)))))"
  using due_jobs_eq [of "[]" limit "clock w 0" "retry (brk w)"]
  by (simp add: mem_GetRetryJobs_def time_Now_def)

subsection \<open>Dequeue\<close>

lemma mem_scan_eq:
  "mem_scan qs w =
     (case first_job qs (brk w) of
        None \<Rightarrow> None
      | Some x \<Rightarrow> Some (x, (snd (time_Now w))\<lparr>brk := take_lease x (clock w 0) (brk w)\<rparr>))"
  by (induction qs) (auto simp: first_job_def take_lease_def time_Now_def split: list.split)

lemma mem_poll_hit:
  "first_job qs (brk w) = Some x \<Longrightarrow>
     mem_poll qs dl w = Some (Some x, (snd (time_Now w))\<lparr>brk := take_lease x (clock w 0) (brk w)\<rparr>)"
  by (subst mem_poll.simps) (simp add: mem_scan_eq)

text \<open>An idle poll reads the clock once; the loop ends at the first reading after the deadline.\<close>

lemma mem_poll_idle:
  assumes "first_job qs (brk w) = None" "dl < clock w n"
  shows "\<exists>w'. mem_poll qs dl w = Some (None, w') \<and> brk w' = brk w \<and> heap w' = heap w"
  using assms
proof (induction n arbitrary: w)
  case 0
  then show ?case by (subst mem_poll.simps) (simp add: mem_scan_eq time_Now_def)
next
  case (Suc n)
  let ?w1 = "snd (time_Now w)" and ?w2 = "snd (select_choice (snd (time_Now w)))"
  have 1: "\<exists>w'. mem_poll qs dl ?w1 = Some (None, w') \<and> brk w' = brk w \<and> heap w' = heap w"
    using Suc.IH [of ?w1] Suc.prems by (simp add: time_Now_def)
  have 2: "\<exists>w'. mem_poll qs dl ?w2 = Some (None, w') \<and> brk w' = brk w \<and> heap w' = heap w"
    using Suc.IH [of ?w2] Suc.prems by (simp add: time_Now_def select_choice_def)
  show ?case
    using 1 2 Suc.prems(1)
    by (subst mem_poll.simps) (simp add: mem_scan_eq case_prod_beta Let_def select_choice_def)
qed

text \<open>
  C21: \<open>Dequeue\<close> returns as soon as some reading of the clock is past the deadline; it
  returns the head of the first non-empty queue in the order of \<open>qs\<close>, or nothing when all are
  empty, and moves exactly that job to the processing set with a lease of five minutes.
\<close>

theorem mem_Dequeue_spec:
  assumes "clock w 0 + timeout < clock w (Suc n)"
  shows "\<exists>w'. mem_Dequeue qs timeout w = Some (Inr (first_job qs (brk w)), w') \<and> heap w' = heap w \<and>
     brk w' = (case first_job qs (brk w) of
       None \<Rightarrow> brk w
     | Some x \<Rightarrow> take_lease x (clock w 1) (brk w))"
proof (cases "first_job qs (brk w)")
  case None
  with mem_poll_idle [of qs "snd (time_Now w)" "clock w 0 + timeout" n] assms show ?thesis
    by (auto simp: mem_Dequeue_def case_prod_beta) (auto simp: time_Now_def)
next
  case (Some x)
  with mem_poll_hit [of qs "snd (time_Now w)" x "clock w 0 + timeout"] show ?thesis
    by (simp add: mem_Dequeue_def case_prod_beta) (simp add: time_Now_def)
qed

theorem mem_Dequeue_spec_witness:
  "\<exists>w'. mem_Dequeue [''mail'', ''default''] Second demo_queued = Some (Inr (Some (0, ''default'')), w') \<and>
     brk w' = take_lease (0, ''default'') Second (brk demo_queued)"
proof -
  have "first_job [''mail'', ''default''] (brk demo_queued) = Some (0, ''default'')"
    by (simp add: first_job_def demo_queued_def queue_of_def)
  with mem_Dequeue_spec [of demo_queued Second 1 "[''mail'', ''default'']"] show ?thesis
    by (auto simp: demo_queued_def)
qed

subsection \<open>First in, first out\<close>

lemma first_job_single: "first_job [q] m = (case queue_of m q of [] \<Rightarrow> None | r # _ \<Rightarrow> Some (r, q))"
  by (simp add: first_job_def split: list.split)

lemma mem_Dequeue_hit:
  assumes "first_job qs (brk w) = Some x"
  shows "\<exists>w'. mem_Dequeue qs timeout w = Some (Inr (Some x), w') \<and>
     brk w' = take_lease x (clock w 1) (brk w) \<and> heap w' = heap w"
  using mem_poll_hit [of qs "snd (time_Now w)" x "clock w 0 + timeout"] assms
  by (simp add: mem_Dequeue_def case_prod_beta) (simp add: time_Now_def)

lemma mem_enqueue_all_brk:
  assumes "ctx_Err w ctx = None" "\<not> is_done (brk w)"
  shows "queue_of (brk (mem_enqueue_all ctx q rs w)) p =
      (if p = q then queue_of (brk w) q @ rs else queue_of (brk w) p) \<and>
    processing (brk (mem_enqueue_all ctx q rs w)) = processing (brk w)"
  using assms
proof (induction rs arbitrary: w)
  case (Cons r rs)
  let ?w1 = "snd (mem_Enqueue ctx q r w)"
  have w1: "?w1 = w\<lparr>brk := set_queue q (queue_of (brk w) q @ [r]) (brk w)\<rparr>"
    using Cons.prems by (simp add: mem_Enqueue_def)
  have "ctx_Err ?w1 ctx = ctx_Err w ctx"
    unfolding w1 by (induction ctx) simp_all
  with Cons.IH [of ?w1] Cons.prems w1 show ?case by simp
qed simp

lemma mem_dequeue_n_all:
  "queue_of (brk w) q = rs @ rest \<Longrightarrow>
   \<exists>w'. mem_dequeue_n (length rs) [q] timeout w = Some (rs, w') \<and> queue_of (brk w') q = rest \<and>
     mem_ProcessingJobs w' = mem_ProcessingJobs w @ rs"
proof (induction rs arbitrary: w)
  case (Cons r rs)
  have "first_job [q] (brk w) = Some (r, q)" using Cons.prems by (simp add: first_job_single)
  then obtain w1 where w1: "mem_Dequeue [q] timeout w = Some (Inr (Some (r, q)), w1)"
    "brk w1 = take_lease (r, q) (clock w 1) (brk w)" using mem_Dequeue_hit by blast
  then have "queue_of (brk w1) q = rs @ rest"
    "mem_ProcessingJobs w1 = mem_ProcessingJobs w @ [r]"
    using Cons.prems by (simp_all add: take_lease_def mem_ProcessingJobs_def)
  with Cons.IH [of w1] w1(1) show ?case by auto
qed simp

text \<open>
  C20: Jobs leave a queue in the order they entered it: enqueueing \<open>rs\<close> and dequeueing as
  often as there are jobs returns the earlier content followed by \<open>rs\<close>, empties the queue and
  puts exactly these jobs under lease.
\<close>

theorem mem_fifo:
  assumes "ctx_Err w ctx = None" "\<not> is_done (brk w)"
  shows "\<exists>w'. mem_dequeue_n (length (queue_of (brk w) q) + length rs) [q] timeout (mem_enqueue_all ctx q rs w) =
      Some (queue_of (brk w) q @ rs, w') \<and> queue_of (brk w') q = [] \<and>
    mem_ProcessingJobs w' = mem_ProcessingJobs w @ queue_of (brk w) q @ rs"
  using mem_dequeue_n_all [of "mem_enqueue_all ctx q rs w" q "queue_of (brk w) q @ rs" "[]"]
    mem_enqueue_all_brk [OF assms, of q rs q]
  by (simp add: mem_ProcessingJobs_def)

theorem mem_fifo_witness:
  "\<exists>w'. mem_dequeue_n 3 [''default''] Second (mem_enqueue_all Background ''default'' [2, 1] demo_queued) =
     Some ([0, 2, 1], w') \<and> queue_of (brk w') ''default'' = []"
proof -
  have "queue_of (brk demo_queued) ''default'' = [0]" "\<not> is_done (brk demo_queued)"
    by (simp_all add: demo_queued_def queue_of_def NewInMemoryBroker_def)
  with mem_fifo [of demo_queued Background "''default''" "[2, 1]" Second] show ?thesis
    by (auto simp: eval_nat_numeral)
qed

subsection \<open>Leases\<close>

lemma mem_reap_spec:
  "\<exists>w'. mem_ReapOrphanedJobs d w =
      (Inr (map pe_Job (filter (\<lambda>e. LeaseExp e < clock w 0) (processing (brk w)))), w') \<and>
    processing (brk w') = filter (\<lambda>e. clock w 0 \<le> LeaseExp e) (processing (brk w)) \<and>
    retry (brk w') = retry (brk w) \<and> dead (brk w') = dead (brk w) \<and> queues (brk w') = queues (brk w)"
  by (simp add: mem_ReapOrphanedJobs_def Let_def reap_split_eq time_Now_def not_less)

text \<open>
  C22: A job just dequeued is reaped exactly when the clock has passed its lease of five
  minutes: before that the reaper leaves it in the processing set, after that it returns it.
\<close>

theorem mem_lease_protects:
  assumes "first_job qs (brk w) = Some (r, q)" "r \<notin> set (mem_ProcessingJobs w)"
    and "mem_Dequeue qs timeout w = Some (Inr (Some (r', q')), w1)"
    and "brk w2 = brk w1" and "mem_ReapOrphanedJobs d w2 = (Inr rs, w3)"
  shows "r' = r \<and> q' = q \<and> (r \<in> set rs \<longleftrightarrow> clock w 1 + 5 * Minute < clock w2 0) \<and>
    (r \<in> set (mem_ProcessingJobs w3) \<longleftrightarrow> clock w2 0 \<le> clock w 1 + 5 * Minute)"
proof -
  obtain w' where "mem_Dequeue qs timeout w = Some (Inr (Some (r, q)), w')"
    "brk w' = take_lease (r, q) (clock w 1) (brk w)" using mem_Dequeue_hit [OF assms(1)] by blast
  with assms(3,4) have eq: "r' = r" "q' = q"
    and b2: "processing (brk w2) = processing (brk w) @ [\<lparr>pe_Job = r, pe_Queue = q,
        LeaseExp = clock w 1 + 5 * Minute\<rparr>]"
    by (auto simp: take_lease_def DefaultLeaseDuration_def)
  from mem_reap_spec [of d w2] assms(5)
  have rs: "rs = map pe_Job (filter (\<lambda>e. LeaseExp e < clock w2 0) (processing (brk w2)))"
    and p3: "processing (brk w3) = filter (\<lambda>e. clock w2 0 \<le> LeaseExp e) (processing (brk w2))"
    by auto
  from assms(2) have "r \<notin> pe_Job ` set (processing (brk w))" by (simp add: mem_ProcessingJobs_def)
  then show ?thesis using eq rs p3 b2 by (auto simp: mem_ProcessingJobs_def)
qed

theorem mem_lease_protects_witness:
  "\<exists>w1 rs w3. mem_Dequeue [''default''] Second demo_queued = Some (Inr (Some (0, ''default'')), w1) \<and>
     mem_ReapOrphanedJobs 0 (w1\<lparr>clock := (\<lambda>_. 301 * Second)\<rparr>) = (Inr rs, w3) \<and> 0 \<notin> set rs \<and>
     0 \<in> set (mem_ProcessingJobs w3)"
proof -
  have first: "first_job [''default''] (brk demo_queued) = Some (0, ''default'')"
    by (simp add: first_job_def demo_queued_def queue_of_def)
  then obtain w1 where w1: "mem_Dequeue [''default''] Second demo_queued = Some (Inr (Some (0, ''default'')), w1)"
    using mem_Dequeue_hit [of "[''default'']" demo_queued] by blast
  let ?w2 = "w1\<lparr>clock := (\<lambda>_. 301 * Second)\<rparr>"
  obtain rs w3 where reap: "mem_ReapOrphanedJobs 0 ?w2 = (Inr rs, w3)"
    using mem_reap_spec [of 0 ?w2] by blast
  have "0 \<notin> set (mem_ProcessingJobs demo_queued)"
    by (simp add: demo_queued_def mem_ProcessingJobs_def NewInMemoryBroker_def)
  from mem_lease_protects [OF first this w1 _ reap] w1 reap show ?thesis
    by (simp add: demo_queued_def)
qed

subsection \<open>Ack\<close>

lemma remove_first_distinct:
  "distinct (map f xs) \<Longrightarrow> map f (remove_first (\<lambda>x. f x = k) xs) = filter (\<lambda>y. y \<noteq> k) (map f xs)"
  by (induction xs) (auto simp: filter_id_conv intro!: filter_True [symmetric])

text \<open>
  With distinct identifiers under lease \<open>Ack\<close> removes the lease of the given job and no
  other, and a second \<open>Ack\<close> changes nothing.
\<close>

lemma mem_ack_exact:
  assumes "distinct (processing_ids w)" "mem_Ack r w = (e, w1)" "mem_Ack r w1 = (e', w2)"
  shows "e = None \<and> processing_ids w1 = filter (\<lambda>j. j \<noteq> JID (heap w r)) (processing_ids w) \<and>
    e' = None \<and> w2 = w1"
proof -
  let ?f = "\<lambda>e. JID (heap w (pe_Job e))" and ?k = "JID (heap w r)"
  have w1: "e = None" "w1 = w\<lparr>brk := (brk w)\<lparr>processing := remove_first (\<lambda>e. ?f e = ?k) (processing (brk w))\<rparr>\<rparr>"
    using assms(2) by (auto simp: mem_Ack_def)
  then have ids: "processing_ids w1 = filter (\<lambda>j. j \<noteq> ?k) (processing_ids w)"
    using remove_first_distinct [of ?f "processing (brk w)" ?k] assms(1) by (simp add: processing_ids_def)
  then have "?k \<notin> set (processing_ids w1)" by simp
  then have "remove_first (\<lambda>e. ?f e = ?k) (processing (brk w1)) = processing (brk w1)"
    using w1 by (intro remove_first_absent) (force simp: processing_ids_def)
  with assms(3) w1 ids show ?thesis by (auto simp: mem_Ack_def)
qed

lemma mem_ack_exact_witness:
  "distinct (processing_ids demo_leased) \<and>
   processing_ids (snd (mem_Ack 0 demo_leased)) = filter (\<lambda>j. j \<noteq> ''a'') (processing_ids demo_leased)"
  using mem_ack_exact [of demo_leased 0 None "snd (mem_Ack 0 demo_leased)" None
      "snd (mem_Ack 0 (snd (mem_Ack 0 demo_leased)))"]
  by (simp add: demo_leased_def processing_ids_def mem_Ack_def)

end
