(* ===== verification/Config.thy ===== *)
theory Config
  imports Crank_Prelude
begin

text \<open>
  Package \<^verbatim>\<open>internal/config\<close>: the configuration records, the YAML hook of \<open>QueueConfig\<close>,
  and \<open>Load\<close> with its path checks, defaults and limits. The YAML library, the file system
  and the process environment are arguments of \<open>Load\<close>; the lexical path functions of
  \<open>path/filepath\<close> are modelled for Unix paths.
\<close>

section \<open>Records\<close>

record NATSConfig =
  nats_URL :: string
  nats_Timeout :: int

record QueueConfig =
  Name :: string
  Weight :: int

record RedisConfig =
  redis_URL :: string
  NetworkTimeout :: int
  redis_UseTLS :: bool
  redis_TLSInsecureSkipVerify :: bool

record Config =
  Broker_kind :: string
  Concurrency :: int
  Queues :: "QueueConfig list"
  cfg_Timeout :: int
  Redis :: RedisConfig
  NATS :: NATSConfig
  RetryPollInterval :: dur
  ReaperInterval :: dur

definition maxConcurrency :: int where "maxConcurrency = 10000"
definition maxTimeoutSec :: int where "maxTimeoutSec = 86400"

definition NATS_GetTimeout :: "NATSConfig \<Rightarrow> dur" where
  "NATS_GetTimeout c =
     (if nats_Timeout c \<le> 0 then 5 * Second else wrap64 (nats_Timeout c * Second))"

definition GetTimeout :: "Config \<Rightarrow> dur" where
  "GetTimeout c = wrap64 (cfg_Timeout c * Second)"

definition GetNetworkTimeout :: "RedisConfig \<Rightarrow> dur" where
  "GetNetworkTimeout c = wrap64 (NetworkTimeout c * Second)"

section \<open>The YAML hook of QueueConfig\<close>

text \<open>
  \<open>as_seq\<close> and \<open>as_map\<close> are what the two calls of the \<open>unmarshal\<close> argument
  deliver; \<open>oob\<close> is the platform's conversion of a \<open>float64\<close> out of range.
\<close>

definition UnmarshalYAML ::
  "(rat \<Rightarrow> int) \<Rightarrow> error + gval list \<Rightarrow> error + (string \<times> gval) list \<Rightarrow> QueueConfig \<Rightarrow> error + QueueConfig"
  where
  "UnmarshalYAML oob as_seq as_map qc =
     (case as_seq of
        Inr (GString name # rest) \<Rightarrow>
          Inr (case rest of
                 GInt weight # _ \<Rightarrow> qc\<lparr>Name := name, Weight := weight\<rparr>
               | GFloat weight # _ \<Rightarrow> qc\<lparr>Name := name, Weight := int_of_float oob weight\<rparr>
               | _ # _ \<Rightarrow> qc\<lparr>Name := name\<rparr>
               | [] \<Rightarrow> qc\<lparr>Name := name, Weight := 1\<rparr>)
      | _ \<Rightarrow>
          (case as_map of
             Inl e \<Rightarrow> Inl e
           | Inr m \<Rightarrow>
               let qc1 = (case map_of m ''name'' of Some (GString name) \<Rightarrow> qc\<lparr>Name := name\<rparr> | _ \<Rightarrow> qc);
                   qc2 = (case map_of m ''weight'' of
                            Some (GInt weight) \<Rightarrow> qc1\<lparr>Weight := weight\<rparr>
                          | Some (GFloat weight) \<Rightarrow> qc1\<lparr>Weight := int_of_float oob weight\<rparr>
                          | _ \<Rightarrow> qc1)
               in Inr (if Weight qc2 = 0 then qc2\<lparr>Weight := 1\<rparr> else qc2)))"

section \<open>Lexical paths\<close>

text \<open>A path as its components between slashes.\<close>

fun split_path :: "string \<Rightarrow> string list" where
  "split_path [] = [[]]"
| "split_path (c # cs) =
     (if c = CHR ''/'' then [] # split_path cs
      else case split_path cs of [] \<Rightarrow> [[c]] | x # xs \<Rightarrow> (c # x) # xs)"

definition join_path :: "string list \<Rightarrow> string" where
  "join_path xs = (case xs of [] \<Rightarrow> [] | x # ys \<Rightarrow> x @ concat (map (\<lambda>y. CHR ''/'' # y) ys))"

definition IsAbs :: "string \<Rightarrow> bool" where
  "IsAbs p = HasPrefix p ''/''"

text \<open>The stack of \<open>filepath.Clean\<close>, top first.\<close>

fun clean_components :: "bool \<Rightarrow> string list \<Rightarrow> string list \<Rightarrow> string list" where
  "clean_components rooted [] stack = stack"
| "clean_components rooted (c # cs) stack =
     (if c = [] \<or> c = ''.'' then clean_components rooted cs stack
      else if c = ''..'' then
        (case stack of
           t # ts \<Rightarrow> if t \<noteq> ''..'' then clean_components rooted cs ts
                     else clean_components rooted cs (c # stack)
         | [] \<Rightarrow> if rooted then clean_components rooted cs [] else clean_components rooted cs [c])
      else clean_components rooted cs (c # stack))"

definition components :: "string \<Rightarrow> string list" where
  "components p = rev (clean_components (IsAbs p) (split_path p) [])"

definition Clean :: "string \<Rightarrow> string" where
  "Clean p =
     (let cs = components p in
      if IsAbs p then CHR ''/'' # join_path cs
      else if cs = [] then ''.'' else join_path cs)"

fun strip_common :: "string list \<Rightarrow> string list \<Rightarrow> string list \<times> string list" where
  "strip_common (b # bs) (t # ts) = (if b = t then strip_common bs ts else (b # bs, t # ts))"
| "strip_common bs ts = (bs, ts)"

text \<open>
  \<open>filepath.Rel\<close>: \<open>None\<close> is the error return, given when one path is absolute and the
  other is not, or when the base climbs above the common part.
\<close>

definition Rel :: "string \<Rightarrow> string \<Rightarrow> string option" where
  "Rel base targ =
     (if IsAbs base \<noteq> IsAbs targ then None
      else case strip_common (components base) (components targ) of
             (bs, ts) \<Rightarrow>
               if bs \<noteq> [] \<and> hd bs = ''..'' then None
               else let out = map (\<lambda>_. ''..'') bs @ ts
                    in Some (if out = [] then ''.'' else join_path out))"

definition traversal :: "string \<Rightarrow> bool" where
  "traversal p \<longleftrightarrow> p = ''..'' \<or> HasPrefix p ''../''"

section \<open>Load\<close>

text \<open>
  The services \<open>Load\<close> calls: \<open>filepath.EvalSymlinks\<close>, \<open>os.Getwd\<close>,
  \<open>os.ReadFile\<close>, \<open>os.Getenv\<close> and \<open>yaml.Unmarshal\<close> into a zero \<open>Config\<close>.
\<close>

record os =
  EvalSymlinks :: "string \<Rightarrow> error + string"
  Getwd :: "error + string"
  ReadFile :: "string \<Rightarrow> error + string"
  Getenv :: "string \<Rightarrow> string"
  yaml_Unmarshal :: "string \<Rightarrow> error + Config"

definition check_path :: "os \<Rightarrow> string \<Rightarrow> error + string" where
  "check_path sys path =
     (let cleaned = Clean path in
      if traversal cleaned then Inl PathTraversal
      else case EvalSymlinks sys cleaned of
             Inl e \<Rightarrow> Inl (Wrapf ''failed to resolve config path'' e)
           | Inr resolved \<Rightarrow>
               if \<not> IsAbs cleaned then
                 (case Getwd sys of
                    Inl _ \<Rightarrow> Inr resolved
                  | Inr wd \<Rightarrow>
                      (case Rel wd resolved of
                         None \<Rightarrow> Inr resolved
                       | Some rel \<Rightarrow> if traversal rel then Inl PathEscapesWorkingDir else Inr resolved))
               else Inr resolved)"

text \<open>
  The name of the broker is lower-cased and trimmed as ASCII. Go also trims Unicode spaces and lower-cases
  letters beyond ASCII, so it takes a few more spellings of the same names; these are outside the model.
\<close>

definition check_broker :: "os \<Rightarrow> Config \<Rightarrow> error + Config" where
  "check_broker sys cfg0 =
     (let cfg = cfg0\<lparr>Broker_kind := TrimSpace (ToLower (Broker_kind cfg0))\<rparr> in
      if Broker_kind cfg = [] then Inl BrokerFieldRequired
      else if Broker_kind cfg = ''redis'' then
        (let r1 = (if redis_URL (Redis cfg) = [] then (Redis cfg)\<lparr>redis_URL := Getenv sys ''REDIS_URL''\<rparr>
                   else Redis cfg)
         in if redis_URL r1 = [] then Inl (ConfigURLEmpty (Broker_kind cfg))
            else Inr (cfg\<lparr>Redis := (if NetworkTimeout r1 = 0 then r1\<lparr>NetworkTimeout := 5\<rparr> else r1)\<rparr>))
      else if Broker_kind cfg = ''nats'' then
        (let n1 = (if nats_URL (NATS cfg) = [] then (NATS cfg)\<lparr>nats_URL := Getenv sys ''NATS_URL''\<rparr>
                   else NATS cfg)
         in if nats_URL n1 = [] then Inl (ConfigURLEmpty (Broker_kind cfg))
            else Inr (cfg\<lparr>NATS := (if nats_Timeout n1 = 0 then n1\<lparr>nats_Timeout := 5\<rparr> else n1)\<rparr>))
      else if Broker_kind cfg = ''pgsql'' then Inl (NotImplemented (Broker_kind cfg))
      else Inl (UnknownBroker (Broker_kind cfg)))"

definition clamp_limits :: "Config \<Rightarrow> Config" where
  "clamp_limits cfg =
     (let c1 = (if Concurrency cfg \<le> 0 then cfg\<lparr>Concurrency := 10\<rparr> else cfg);
          c2 = (if Concurrency c1 > maxConcurrency then c1\<lparr>Concurrency := maxConcurrency\<rparr> else c1);
          c3 = (if cfg_Timeout c2 \<le> 0 then c2\<lparr>cfg_Timeout := 8\<rparr> else c2)
      in if cfg_Timeout c3 > maxTimeoutSec then c3\<lparr>cfg_Timeout := maxTimeoutSec\<rparr> else c3)"

definition Load :: "os \<Rightarrow> string \<Rightarrow> error + Config" where
  "Load sys path =
     (case check_path sys path of
        Inl e \<Rightarrow> Inl e
      | Inr resolved \<Rightarrow>
          (case ReadFile sys resolved of
             Inl e \<Rightarrow> Inl (Wrapf ''failed to read config file'' e)
           | Inr data \<Rightarrow>
               (case yaml_Unmarshal sys data of
                  Inl e \<Rightarrow> Inl (Wrapf ''failed to parse config'' e)
                | Inr cfg \<Rightarrow>
                    (case check_broker sys cfg of
                       Inl e \<Rightarrow> Inl e
                     | Inr cfg1 \<Rightarrow> Inr (clamp_limits cfg1)))))"

section \<open>Lemmas\<close>

definition wf_config :: "Config \<Rightarrow> bool" where
  "wf_config c \<longleftrightarrow> 1 \<le> Concurrency c \<and> Concurrency c \<le> maxConcurrency \<and>
     1 \<le> cfg_Timeout c \<and> cfg_Timeout c \<le> maxTimeoutSec"

lemma clamp_limits_wf: "wf_config (clamp_limits c)"
  by (simp add: wf_config_def clamp_limits_def maxConcurrency_def maxTimeoutSec_def Let_def)

lemma clamp_limits_broker [simp]:
  "Broker_kind (clamp_limits c) = Broker_kind c" "Redis (clamp_limits c) = Redis c"
  "NATS (clamp_limits c) = NATS c"
  by (simp_all add: clamp_limits_def Let_def)

lemma wf_config_timeout:
  "wf_config c \<Longrightarrow> GetTimeout c = cfg_Timeout c * Second \<and> 0 < GetTimeout c"
  by (simp add: wf_config_def GetTimeout_def maxTimeoutSec_def in64_def)

lemma check_broker_ok:
  "check_broker sys c = Inr c' \<Longrightarrow>
     (Broker_kind c' = ''redis'' \<and> redis_URL (Redis c') \<noteq> [] \<and> NetworkTimeout (Redis c') \<noteq> 0) \<or>
     (Broker_kind c' = ''nats'' \<and> nats_URL (NATS c') \<noteq> [] \<and> nats_Timeout (NATS c') \<noteq> 0)"
  by (auto simp: check_broker_def Let_def split: if_splits)

text \<open>
  C30: what \<open>Load\<close> guarantees of a configuration it accepts. Its worker count and its job timeout
  are within their limits, the timeout in nanoseconds does not overflow and is positive, and
  the selected broker is Redis or NATS with a URL that is not empty and a network timeout that is not zero.
  This does not mean that the broker can be opened: \<open>Open\<close> refuses NATS, and the Redis constructor a
  URL of blanks.
\<close>

theorem Load_wf:
  assumes "Load sys path = Inr c"
  shows "wf_config c \<and> GetTimeout c = cfg_Timeout c * Second \<and> 0 < GetTimeout c \<and>
    ((Broker_kind c = ''redis'' \<and> redis_URL (Redis c) \<noteq> [] \<and> NetworkTimeout (Redis c) \<noteq> 0) \<or>
     (Broker_kind c = ''nats'' \<and> nats_URL (NATS c) \<noteq> [] \<and> nats_Timeout (NATS c) \<noteq> 0))"
proof -
  from assms obtain c0 c1 where "check_broker sys c0 = Inr c1" and c: "c = clamp_limits c1"
    by (auto simp: Load_def split: sum.splits)
  with check_broker_ok [OF this(1)] show ?thesis
    using clamp_limits_wf [of c1] wf_config_timeout [of c] by auto
qed

text \<open>A sample file system, with a file \<open>a.yml\<close>, a link \<open>l\<close> to \<open>../s.yml\<close> and a link \<open>m\<close> to \<open>/x/y\<close>.\<close>

definition demo_config :: Config where
  "demo_config = \<lparr>Broker_kind = ''redis'', Concurrency = 50000, Queues = [], cfg_Timeout = -1,
     Redis = \<lparr>redis_URL = ''redis://h'', NetworkTimeout = 0, redis_UseTLS = False,
       redis_TLSInsecureSkipVerify = False\<rparr>,
     NATS = \<lparr>nats_URL = [], nats_Timeout = 0\<rparr>, RetryPollInterval = 0, ReaperInterval = 0\<rparr>"

definition demo_os :: os where
  "demo_os = \<lparr>EvalSymlinks = (\<lambda>p. Inr (if p = ''l'' then ''../s.yml'' else if p = ''m'' then ''/x/y'' else p)), Getwd = Inr ''/w'',
     ReadFile = (\<lambda>p. Inr p), Getenv = (\<lambda>_. []), yaml_Unmarshal = (\<lambda>_. Inr demo_config)\<rparr>"

theorem Load_wf_witness:
  "\<exists>c. Load demo_os ''a.yml'' = Inr c \<and> wf_config c"
proof -
  have "\<not> isl (Load demo_os ''a.yml'')" by code_simp
  then obtain c where "Load demo_os ''a.yml'' = Inr c" by (cases "Load demo_os ''a.yml''") auto
  then show ?thesis using Load_wf by blast
qed

lemma strip_common_Nil: "strip_common bs ts = ([], us) \<Longrightarrow> ts = bs @ us"
  by (induction bs ts rule: strip_common.induct) (auto split: if_splits)

lemma join_path_dots: "traversal (join_path (''..'' # xs))"
  by (cases xs) (auto simp: traversal_def join_path_def HasPrefix_def)

lemma Rel_inside:
  assumes "Rel wd p = Some rel" and "\<not> traversal rel"
  shows "IsAbs wd = IsAbs p \<and> (\<exists>ts. components p = components wd @ ts)"
proof -
  obtain bs ts where s: "strip_common (components wd) (components p) = (bs, ts)"
    by (cases "strip_common (components wd) (components p)")
  have "bs = []"
  proof (rule ccontr)
    assume "bs \<noteq> []"
    then have "rel = join_path (''..'' # map (\<lambda>_. ''..'') (tl bs) @ ts)"
      using assms(1) s by (cases bs) (auto simp: Rel_def Let_def split: if_splits)
    with assms(2) join_path_dots show False by blast
  qed
  with s strip_common_Nil assms(1) show ?thesis by (auto simp: Rel_def split: if_splits)
qed

lemma clean_components_rooted:
  "''..'' \<notin> set stack \<Longrightarrow> ''..'' \<notin> set (clean_components True cs stack)"
proof (induction cs arbitrary: stack)
  case (Cons c cs)
  show ?case
  proof (cases stack)
    case Nil
    then show ?thesis using Cons.IH [of "[]"] Cons.IH [of "[c]"] by auto
  next
    case (Cons t ts)
    with Cons.prems have "t \<noteq> ''..''" "''..'' \<notin> set ts" by auto
    then show ?thesis
      using Cons Cons.IH [of stack] Cons.IH [of ts] Cons.IH [of "c # stack"] Cons.prems by auto
  qed
qed simp

lemma strip_common_suffix: "strip_common bs ts = (us, vs) \<Longrightarrow> set us \<subseteq> set bs"
  by (induction bs ts rule: strip_common.induct) (auto split: if_splits)

lemma Rel_absolute_defined:
  assumes "IsAbs wd" and "IsAbs p"
  shows "\<exists>rel. Rel wd p = Some rel"
proof -
  obtain bs ts where s: "strip_common (components wd) (components p) = (bs, ts)"
    by (cases "strip_common (components wd) (components p)")
  have "''..'' \<notin> set (components wd)"
    using assms(1) clean_components_rooted by (simp add: components_def)
  with strip_common_suffix [OF s] have "\<not> (bs \<noteq> [] \<and> hd bs = ''..'')"
    by (cases bs) auto
  with assms s show ?thesis by (auto simp: Rel_def Let_def)
qed

lemma strip_common_append: "strip_common bs (bs @ ts) = ([], ts)"
proof (induction bs)
  case Nil
  show ?case by (cases ts) simp_all
qed simp

text \<open>A component of a path has no slash, so the first component is what stands before the first slash.\<close>

lemma split_path_no_slash: "x \<in> set (split_path s) \<Longrightarrow> CHR ''/'' \<notin> set x"
  by (induction s arbitrary: x) (auto split: if_splits list.splits)

lemma clean_components_sub: "set (clean_components r cs stack) \<subseteq> set cs \<union> set stack"
proof (induction cs arbitrary: stack)
  case (Cons c cs)
  show ?case
  proof (cases stack)
    case Nil
    then show ?thesis using Cons.IH [of "[]"] Cons.IH [of "[c]"] by auto
  next
    case (Cons t ts)
    then show ?thesis using Cons.IH [of stack] Cons.IH [of ts] Cons.IH [of "c # stack"] by auto
  qed
qed simp

lemma components_no_slash: "x \<in> set (components p) \<Longrightarrow> CHR ''/'' \<notin> set x"
  using clean_components_sub [of "IsAbs p" "split_path p" "[]"] split_path_no_slash by (auto simp: components_def)

lemma traversal_first: "traversal p \<Longrightarrow> takeWhile (\<lambda>c. c \<noteq> CHR ''/'') p = ''..''"
  unfolding traversal_def HasPrefix_def
proof (elim disjE)
  assume "take (length ''../'') p = ''../''"
  then obtain q where "p = ''../'' @ q" by (metis append_take_drop_id)
  then show ?thesis by simp
qed simp

lemma join_path_first: "CHR ''/'' \<notin> set t \<Longrightarrow> takeWhile (\<lambda>c. c \<noteq> CHR ''/'') (join_path (t # ts)) = t"
  by (cases ts) (auto simp: join_path_def takeWhile_append)

lemma Rel_below:
  assumes "IsAbs wd" "IsAbs p" "components p = components wd @ ts" "Rel wd p = Some rel"
  shows "\<not> traversal rel"
proof (cases ts)
  case Nil
  then have "rel = ''.''" using assms strip_common_append [of "components wd" "[]"] by (simp add: Rel_def)
  then show ?thesis by (simp add: traversal_def HasPrefix_def)
next
  case (Cons t us)
  have rel: "rel = join_path (t # us)" using assms Cons by (simp add: Rel_def strip_common_append)
  have "''..'' \<notin> set (components p)" using assms(2) clean_components_rooted by (simp add: components_def)
  moreover have "t \<in> set (components p)" using assms(3) Cons by simp
  ultimately have "t \<noteq> ''..''" "CHR ''/'' \<notin> set t" using components_no_slash by auto
  with traversal_first [of rel] join_path_first [of t us] rel show ?thesis by auto
qed

text \<open>
  C31: which file \<open>Load\<close> reads for a relative path, when the working directory is known. The path is
  accepted exactly when it does not lexically lead above the working directory, it resolves, and its
  resolution is either below the working directory or a relative path; the latter is not checked further.
  Only the resolved file is read: the result does not depend on the content of any other.
\<close>

theorem Load_path_safety:
  assumes "\<not> IsAbs (Clean path)" "Getwd sys = Inr wd" "IsAbs wd"
  shows "(check_path sys path = Inr p \<longleftrightarrow>
      \<not> traversal (Clean path) \<and> EvalSymlinks sys (Clean path) = Inr p \<and>
      (IsAbs p \<longrightarrow> (\<exists>ts. components p = components wd @ ts))) \<and>
    (traversal (Clean path) \<longrightarrow> Load sys path = Inl PathTraversal) \<and>
    (\<forall>files. (\<forall>q. check_path sys path = Inr q \<longrightarrow> files q = ReadFile sys q) \<longrightarrow>
       Load (sys\<lparr>ReadFile := files\<rparr>) path = Load sys path)"
proof (intro conjI allI impI)
  show "Load sys path = Inl PathTraversal" if "traversal (Clean path)" using that by (simp add: Load_def check_path_def)
  have same: "check_path (sys\<lparr>ReadFile := files\<rparr>) path = check_path sys path" for files
    by (simp add: check_path_def Let_def split: sum.split)
  have brk: "check_broker (sys\<lparr>ReadFile := files\<rparr>) = check_broker sys" for files
    by (rule ext) (simp add: check_broker_def Let_def)
  show "Load (sys\<lparr>ReadFile := files\<rparr>) path = Load sys path"
    if "\<forall>q. check_path sys path = Inr q \<longrightarrow> files q = ReadFile sys q" for files
    using that by (auto simp: Load_def same brk split: sum.split)
  show "check_path sys path = Inr p \<longleftrightarrow> \<not> traversal (Clean path) \<and> EvalSymlinks sys (Clean path) = Inr p \<and>
      (IsAbs p \<longrightarrow> (\<exists>ts. components p = components wd @ ts))" (is "?L \<longleftrightarrow> ?R")
  proof (cases "IsAbs p")
    case False
    then have "Rel wd p = None" using assms(3) by (simp add: Rel_def)
    with False assms(1,2) show ?thesis
      by (auto simp: check_path_def Let_def split: sum.splits option.splits if_splits)
  next
    case True
    obtain rel where rel: "Rel wd p = Some rel" using Rel_absolute_defined [OF assms(3) True] by blast
    have "?L \<longleftrightarrow> \<not> traversal (Clean path) \<and> EvalSymlinks sys (Clean path) = Inr p \<and> \<not> traversal rel"
      using assms(1,2) rel by (auto simp: check_path_def Let_def split: sum.splits option.splits if_splits)
    moreover have "\<not> traversal rel \<longleftrightarrow> (\<exists>ts. components p = components wd @ ts)"
      using Rel_inside [OF rel] Rel_below [OF assms(3) True _ rel] by blast
    ultimately show ?thesis using True by simp
  qed
qed

theorem Load_path_safety_witness:
  "check_path demo_os ''l'' = Inr ''../s.yml'' \<and> (\<forall>p. check_path demo_os ''m'' \<noteq> Inr p) \<and>
   Load demo_os ''x/../../s.yml'' = Inl PathTraversal"
proof -
  have c: "Clean ''l'' = ''l''" "Clean ''m'' = ''m''" "\<not> traversal ''l''" "\<not> IsAbs ''l''" "\<not> IsAbs ''m''"
    "\<not> IsAbs ''../s.yml''" "IsAbs ''/w''" "IsAbs ''/x/y''"
    "traversal (Clean ''x/../../s.yml'')" "\<not> IsAbs (Clean ''x/../../s.yml'')"
    "components ''/x/y'' = [''x'', ''y'']" "components ''/w'' = [''w'']"
    by code_simp+
  have wd: "Getwd demo_os = Inr ''/w''" "EvalSymlinks demo_os ''l'' = Inr ''../s.yml''" "EvalSymlinks demo_os ''m'' = Inr ''/x/y''"
    by (simp_all add: demo_os_def)
  from Load_path_safety [of "''l''" demo_os "''/w''" "''../s.yml''"] c wd have "check_path demo_os ''l'' = Inr ''../s.yml''" by simp
  moreover have "check_path demo_os ''m'' \<noteq> Inr p" for p
    using Load_path_safety [of "''m''" demo_os "''/w''" p] c wd by auto
  moreover have "Load demo_os ''x/../../s.yml'' = Inl PathTraversal"
    using Load_path_safety [OF c(10) wd(1) c(7)] c(9) by blast
  ultimately show ?thesis by blast
qed

text \<open>
  The symlink check has a gap. When a relative path resolves to a relative path, as it
  does through a relative symbolic link, \<open>filepath.Rel\<close> reports an error, the second check
  is skipped and the resolution is accepted wherever it points.
\<close>

lemma Load_relative_symlink_unchecked:
  assumes "\<not> traversal (Clean path)" and "\<not> IsAbs (Clean path)"
    and "EvalSymlinks sys (Clean path) = Inr resolved" and "\<not> IsAbs resolved"
    and "Getwd sys = Inr wd" and "IsAbs wd"
  shows "check_path sys path = Inr resolved"
  using assms by (simp add: check_path_def Rel_def)

lemma Load_relative_symlink_unchecked_witness:
  "traversal ''../s.yml'' \<and> check_path demo_os ''l'' = Inr ''../s.yml''"
proof -
  have "\<not> traversal (Clean ''l'')" "\<not> IsAbs (Clean ''l'')" "Clean ''l'' = ''l''" "\<not> IsAbs ''../s.yml''"
    "IsAbs ''/w''" "traversal ''../s.yml''"
    by code_simp+
  then show ?thesis
    using Load_relative_symlink_unchecked [of "''l''" demo_os "''../s.yml''" "''/w''"]
    by (simp add: demo_os_def)
qed

end
