(* ===== verification/Middleware.thy ===== *)
theory Middleware
  imports World
begin

text \<open>
  Handlers and middleware (\<^verbatim>\<open>internal/queue/middleware.go\<close>) and the process-wide worker
  registry (\<^verbatim>\<open>internal/queue/worker.go\<close>). A handler returns an error or nil, or panics; a
  panic runs through the callers up to the nearest \<open>recover\<close>.
\<close>

section \<open>Handlers and chains\<close>

datatype outcome = Returned "error option" | Panicked

type_synonym 'b Handler = "ctx \<Rightarrow> jobref \<Rightarrow> 'b world \<Rightarrow> outcome \<times> 'b world"
type_synonym 'b Middleware = "'b Handler \<Rightarrow> 'b Handler"

record 'b Chain =
  middlewares :: "'b Middleware list"

definition NewChain :: "'b Middleware list \<Rightarrow> 'b Chain" where
  "NewChain ms = \<lparr>middlewares = ms\<rparr>"

definition Use :: "'b Middleware list \<Rightarrow> 'b Chain \<Rightarrow> 'b Chain" where
  "Use ms c = c\<lparr>middlewares := middlewares c @ ms\<rparr>"

text \<open>The loop of \<open>Wrap\<close>: \<open>n\<close> middlewares are still to be applied.\<close>

fun wrap_loop :: "'b Middleware list \<Rightarrow> nat \<Rightarrow> 'b Handler \<Rightarrow> 'b Handler" where
  "wrap_loop ms 0 handler = handler"
| "wrap_loop ms (Suc index) handler = wrap_loop ms index ((ms ! index) handler)"

definition Wrap :: "'b Chain \<Rightarrow> 'b Handler \<Rightarrow> 'b Handler" where
  "Wrap c final = wrap_loop (middlewares c) (length (middlewares c)) final"

section \<open>The built-in middlewares\<close>

text \<open>The variadic parameter \<open>redactor\<close> is a list of possibly nil redactors.\<close>

definition pick_redactor :: "Redactor option list \<Rightarrow> 'b world \<Rightarrow> Redactor" where
  "pick_redactor redactor w =
     (case redactor of Some r # _ \<Rightarrow> r | _ \<Rightarrow> GetDefaultRedactor w)"

definition LoggingMiddleware :: "Redactor option list \<Rightarrow> 'b Middleware" where
  "LoggingMiddleware redactor nxt ctx r w =
     (case nxt ctx r w of
        (Returned (Some err), w1) \<Rightarrow>
          (let safeArgs = pick_redactor redactor w1 (args_of (heap w1 r)) in
           (Returned (Some err),
            log_line Error ''job failed''
              [(''jid'', LStr (JID (heap w1 r))), (''args'', LStr safeArgs), (''err'', LErr err)] w1))
      | res \<Rightarrow> res)"

definition RecoveryMiddleware :: "'b Middleware" where
  "RecoveryMiddleware nxt ctx r w =
     (case nxt ctx r w of
        (Panicked, w1) \<Rightarrow>
          (Returned (Some (PanicInJob (JID (heap w1 r)) (Class (heap w1 r)))),
           log_line Error ''panic recovered in job handler''
             [(''jid'', LStr (JID (heap w1 r))), (''class'', LStr (Class (heap w1 r))), (''stack'', LStack)] w1)
      | res \<Rightarrow> res)"

text \<open>The breaker methods on the breaker object number \<open>b\<close> of the world.\<close>

definition breaker_Allow :: "nat \<Rightarrow> string \<Rightarrow> 'b world \<Rightarrow> bool \<times> 'b world" where
  "breaker_Allow b class w =
     (let (ord, w1) = range_order w;
          (now, w2) = time_Now w1;
          (ok, cb) = Allow ord now class (breakers w2 b)
      in (ok, w2\<lparr>breakers := (breakers w2)(b := cb)\<rparr>))"

definition breaker_RecordSuccess :: "nat \<Rightarrow> string \<Rightarrow> 'b world \<Rightarrow> 'b world" where
  "breaker_RecordSuccess b class w =
     (let (ord, w1) = range_order w
      in w1\<lparr>breakers := (breakers w1)(b := RecordSuccess ord class (breakers w1 b))\<rparr>)"

definition breaker_RecordFailure :: "nat \<Rightarrow> string \<Rightarrow> 'b world \<Rightarrow> 'b world" where
  "breaker_RecordFailure b class w =
     (let (ord, w1) = range_order w;
          (now, w2) = time_Now w1
      in w2\<lparr>breakers := (breakers w2)(b := RecordFailure ord now class (breakers w2 b))\<rparr>)"

definition BreakerMiddleware :: "nat option \<Rightarrow> 'b Middleware" where
  "BreakerMiddleware breaker nxt =
     (case breaker of
        None \<Rightarrow> nxt
      | Some b \<Rightarrow>
          (\<lambda>ctx r w.
             (let (ok, w1) = breaker_Allow b (Class (heap w r)) w in
              if \<not> ok then (Returned (Some ErrCircuitOpen), w1)
              else case nxt ctx r w1 of
                     (Panicked, w2) \<Rightarrow> (Panicked, w2)
                   | (Returned (Some err), w2) \<Rightarrow>
                       (Returned (Some err), breaker_RecordFailure b (Class (heap w2 r)) w2)
                   | (Returned None, w2) \<Rightarrow>
                       (Returned None, breaker_RecordSuccess b (Class (heap w2 r)) w2))))"

section \<open>The process-wide worker registry\<close>

definition RegisterWorker :: "string \<Rightarrow> workerref option \<Rightarrow> 'b world \<Rightarrow> 'b world" where
  "RegisterWorker className worker w = w\<lparr>workers := AList.update className worker (workers w)\<rparr>"

definition GetWorker :: "string \<Rightarrow> 'b world \<Rightarrow> workerref option \<times> error option" where
  "GetWorker className w =
     (case map_of (workers w) className of
        None \<Rightarrow> (None, Some (WorkerClassNotFound className))
      | Some worker \<Rightarrow> (worker, None))"

definition ListWorkers :: "'b world \<Rightarrow> string list \<times> 'b world" where
  "ListWorkers w = (let (ord, w1) = range_order w in (ord 0 (map fst (workers w1)), w1))"

text \<open>A world whose only circuit is open.\<close>

definition demo_open :: "unit world" where
  "demo_open = (start_world () [demo_job ''a''])\<lparr>breakers :=
     (\<lambda>_. (NewCircuitBreaker demo_cfg)\<lparr>classes := [(''Mail'', sentinelDenied\<lparr>openUntil := 8\<rparr>)]\<rparr>)\<rparr>"

section \<open>Lemmas\<close>

lemma wrap_loop_foldr: "n \<le> length ms \<Longrightarrow> wrap_loop ms n h = foldr (\<lambda>m h. m h) (take n ms) h"
  by (induction n arbitrary: h) (simp_all add: take_Suc_conv_app_nth)

text \<open>The first middleware of the chain is the outermost wrapper.\<close>

lemma Wrap_eq: "Wrap c final = foldr (\<lambda>m h. m h) (middlewares c) final"
  by (simp add: Wrap_def wrap_loop_foldr)

lemma Wrap_Use: "Wrap (Use ms c) final = Wrap c (foldr (\<lambda>m h. m h) ms final)"
  by (simp add: Wrap_eq Use_def)

lemma Recovery_returns: "\<exists>e w'. RecoveryMiddleware nxt ctx r w = (Returned e, w')"
  by (cases "nxt ctx r w"; cases "fst (nxt ctx r w)") (auto simp: RecoveryMiddleware_def)

lemma breaker_Allow_sel [frame, simp]:
  "brk (snd (breaker_Allow b c w)) = brk w" "heap (snd (breaker_Allow b c w)) = heap w"
  "next_ref (snd (breaker_Allow b c w)) = next_ref w" "logs (snd (breaker_Allow b c w)) = logs w"
  "defaultRedactor (snd (breaker_Allow b c w)) = defaultRedactor w"
  "cancelled (snd (breaker_Allow b c w)) = cancelled w"
  by (simp_all add: breaker_Allow_def range_order_def time_Now_def Let_def split: prod.splits)

lemma breaker_Record_sel [frame, simp]:
  "brk (breaker_RecordSuccess b c w) = brk w" "heap (breaker_RecordSuccess b c w) = heap w"
  "next_ref (breaker_RecordSuccess b c w) = next_ref w" "logs (breaker_RecordSuccess b c w) = logs w"
  "brk (breaker_RecordFailure b c w) = brk w" "heap (breaker_RecordFailure b c w) = heap w"
  "next_ref (breaker_RecordFailure b c w) = next_ref w" "logs (breaker_RecordFailure b c w) = logs w"
  "defaultRedactor (breaker_RecordSuccess b c w) = defaultRedactor w"
  "defaultRedactor (breaker_RecordFailure b c w) = defaultRedactor w"
  "cancelled (breaker_RecordSuccess b c w) = cancelled w"
  "cancelled (breaker_RecordFailure b c w) = cancelled w"
  by (simp_all add: breaker_RecordSuccess_def breaker_RecordFailure_def range_order_def time_Now_def
      Let_def)

section \<open>Properties\<close>

text \<open>
  The order of a chain. However it was put together, \<open>Wrap\<close> applies the middlewares so
  that the first one is the outermost and the handler runs innermost.
\<close>

lemma chain_order:
  "Wrap (Use ms (NewChain ms0)) final = foldr (\<lambda>m h. m h) (ms0 @ ms) final"
  by (simp add: Wrap_eq Use_def NewChain_def)

text \<open>
  An open circuit stops the job before its handler. The middleware answers with
  \<open>ErrCircuitOpen\<close> whatever the inner handler is, and neither the job, nor the broker, nor
  the state of the circuit changes.
\<close>

lemma open_circuit_blocks:
  assumes "map_of (classes (breakers w b)) (Class (heap w r)) = Some s"
    and "state s = stateOpen" and "clock w 0 < openUntil s"
  shows "\<exists>w'. BreakerMiddleware (Some b) nxt ctx r w = (Returned (Some ErrCircuitOpen), w') \<and>
    heap w' = heap w \<and> brk w' = brk w \<and>
    map_of (classes (breakers w' b)) = map_of (classes (breakers w b))"
proof -
  let ?c = "Class (heap w r)" and ?cb = "breakers w b"
  have "Allow ord (clock w 0) ?c ?cb = (False, ?cb\<lparr>classes := AList.update ?c s (classes ?cb)\<rparr>)" for ord
    using assms by (simp add: Allow_def getOrCreate_def deref_def store_def allow_entry_def)
  then have al: "fst (breaker_Allow b ?c w) = False"
    "breakers (snd (breaker_Allow b ?c w)) b = ?cb\<lparr>classes := AList.update ?c s (classes ?cb)\<rparr>"
    by (simp_all add: breaker_Allow_def range_order_def time_Now_def Let_def)
  have "map_of (AList.update ?c s (classes ?cb)) = map_of (classes ?cb)"
    using assms(1) by (auto simp: update_conv')
  then show ?thesis
    using al by (simp add: BreakerMiddleware_def case_prod_beta Let_def)
qed

text \<open>
  C26: a probe that panics leaves the circuit stuck. The panic passes the breaker middleware
  without an outcome being recorded, so after the half-open probe the recovered run leaves a
  circuit that denies every further job of the class, at whatever time.
\<close>

theorem panicking_probe_sticks:
  assumes "map_of (classes (breakers w b)) (Class (heap w r)) = Some s"
    and "state s = stateOpen" and "openUntil s \<le> clock w 0"
    and "nxt ctx r (snd (breaker_Allow b (Class (heap w r)) w)) = (Panicked, w2)"
    and "breakers w2 = breakers (snd (breaker_Allow b (Class (heap w r)) w))"
  shows "\<exists>e w'. RecoveryMiddleware (BreakerMiddleware (Some b) nxt) ctx r w = (Returned (Some e), w') \<and>
    allow_answers ords (Class (heap w r)) ts (breakers w' b) = replicate (length ts) False"
proof -
  let ?c = "Class (heap w r)" and ?cb = "breakers w b"
  let ?s = "s\<lparr>state := stateHalfOpen, halfOpenProbeUsed := True\<rparr>"
  have "Allow ord (clock w 0) ?c ?cb = (True, ?cb\<lparr>classes := AList.update ?c ?s (classes ?cb)\<rparr>)" for ord
    using assms(1-3) by (simp add: Allow_def getOrCreate_def deref_def store_def allow_entry_def Let_def)
  then have al: "fst (breaker_Allow b ?c w) = True"
    "breakers (snd (breaker_Allow b ?c w)) b = ?cb\<lparr>classes := AList.update ?c ?s (classes ?cb)\<rparr>"
    by (simp_all add: breaker_Allow_def range_order_def time_Now_def Let_def)
  have "BreakerMiddleware (Some b) nxt ctx r w = (Panicked, w2)"
    using al(1) assms(4) by (simp add: BreakerMiddleware_def case_prod_beta Let_def)
  then have run: "RecoveryMiddleware (BreakerMiddleware (Some b) nxt) ctx r w =
      (Returned (Some (PanicInJob (JID (heap w2 r)) (Class (heap w2 r)))),
       log_line Error ''panic recovered in job handler''
         [(''jid'', LStr (JID (heap w2 r))), (''class'', LStr (Class (heap w2 r))), (''stack'', LStack)] w2)"
    by (simp add: RecoveryMiddleware_def)
  have "allow_answers ords ?c ts (breakers w2 b) = replicate (length ts) False"
    unfolding assms(5) al(2) by (rule allow_answers_used [of _ _ ?s]) (simp_all add: update_conv')
  with run show ?thesis by simp
qed

lemma open_circuit_blocks_witness:
  "\<exists>w'. BreakerMiddleware (Some 0) (\<lambda>_ _ w. (Returned None, w)) Background 0 demo_open =
     (Returned (Some ErrCircuitOpen), w') \<and> heap w' = heap demo_open"
  using open_circuit_blocks [of demo_open 0 0 "sentinelDenied\<lparr>openUntil := 8\<rparr>"
      "\<lambda>_ _ w. (Returned None, w)" Background]
  by (auto simp: demo_open_def sentinelDenied_def)

theorem panicking_probe_sticks_witness:
  "\<exists>e w'. RecoveryMiddleware (BreakerMiddleware (Some 0) (\<lambda>_ _ w. (Panicked, w))) Background 0
      (demo_open\<lparr>clock := (\<lambda>_. 9)\<rparr>) = (Returned (Some e), w') \<and>
    allow_answers (\<lambda>_ _ ks. ks) ''Mail'' [100, 2000] (breakers w' 0) = [False, False]"
  using panicking_probe_sticks [of "demo_open\<lparr>clock := (\<lambda>_. 9)\<rparr>" 0 0 "sentinelDenied\<lparr>openUntil := 8\<rparr>"
      "\<lambda>_ _ w. (Panicked, w)" Background _ "\<lambda>_ _ ks. ks" "[100, 2000]"]
  by (auto simp: demo_open_def sentinelDenied_def numeral_2_eq_2)

end
