(* ===== verification/Processor.thy ===== *)
theory Processor
  imports Broker_Interface Middleware Config
begin

text \<open>
  The processor of \<^verbatim>\<open>internal/queue/processor.go\<close>: construction, the handler at the end of the
  middleware chain, one run of a job with its outcome handling, one turn of each of its
  loops, and its settings. The broker is an argument \<open>B\<close> of type \<open>Broker\<close>; what a worker
  does is the argument \<open>perform\<close>.
\<close>

section \<open>State\<close>

type_synonym 'b perform = "workerref \<Rightarrow> ctx \<Rightarrow> gval list \<Rightarrow> 'b world \<Rightarrow> outcome \<times> 'b world"

type_synonym 'b WorkerRegistry = "string \<Rightarrow> 'b world \<Rightarrow> workerref option \<times> error option"

text \<open>
  \<open>p_handler\<close> is the chain as it was when the handler was last wrapped; the wrapped
  function reads the validator through the processor pointer when it runs. \<open>p_events\<close> is
  the capacity of the event channel, \<open>None\<close> for a nil channel.
\<close>

record 'b Processor =
  p_cfg :: Config
  p_registry :: "'b WorkerRegistry option"
  p_queues :: "string list"
  p_queueSet :: "string list"
  p_chain :: "'b Chain"
  p_handler :: "'b Chain"
  p_metrics :: "(JobEvent \<Rightarrow> 'b world \<Rightarrow> 'b world) option"
  p_events :: "int option"
  p_started :: bool
  p_redactor :: "Redactor option"
  p_validator :: "Validator option"

definition weighted_queues :: "QueueConfig list \<Rightarrow> string list" where
  "weighted_queues qcs =
     concat (map (\<lambda>qc. let weight = (if Weight qc \<le> 0 then 1 else Weight qc)
                       in replicate (nat weight) (Name qc)) qcs)"

definition NewProcessor :: "Config \<Rightarrow> 'b WorkerRegistry option \<Rightarrow> 'b Chain option \<Rightarrow> 'b Processor" where
  "NewProcessor cfg registry chain =
     (let qs0 = weighted_queues (Queues cfg);
          qs = (if qs0 = [] then [''default''] else qs0);
          ch = (case chain of None \<Rightarrow> NewChain [RecoveryMiddleware, LoggingMiddleware []] | Some c \<Rightarrow> c)
      in \<lparr>p_cfg = cfg, p_registry = registry, p_queues = qs, p_queueSet = qs, p_chain = ch,
          p_handler = ch, p_metrics = None, p_events = None, p_started = False,
          p_redactor = None, p_validator = None\<rparr>)"

section \<open>Execution of a job\<close>

definition execute :: "'b perform \<Rightarrow> 'b Processor \<Rightarrow> 'b Handler" where
  "execute perform p ctx r w =
     (let v = (case p_validator p of None \<Rightarrow> GetDefaultValidator w | Some v \<Rightarrow> Some v)
      in case (case v of None \<Rightarrow> None | Some f \<Rightarrow> f (heap w r)) of
           Some err \<Rightarrow> (Returned (Some (Wrapf ''validation failed'' err)), w)
         | None \<Rightarrow>
             (let class = Class (heap w r);
                  (worker, localErr) =
                    (case p_registry p of None \<Rightarrow> (None, None) | Some get \<Rightarrow> get class w)
              in case worker of
                   Some wk \<Rightarrow> perform wk ctx (args_of (heap w r)) w
                 | None \<Rightarrow>
                     (case GetWorker class w of
                        (Some wk, _) \<Rightarrow> perform wk ctx (args_of (heap w r)) w
                      | (None, globalErr) \<Rightarrow>
                          (case localErr of
                             Some e \<Rightarrow> (Returned (Some (WorkerNotFoundLocal class e globalErr)), w)
                           | None \<Rightarrow> (Returned (Some (WorkerNotFoundGlobal class globalErr)), w)))))"

definition run_handler :: "'b perform \<Rightarrow> 'b Processor \<Rightarrow> 'b Handler" where
  "run_handler perform p = Wrap (p_handler p) (execute perform p)"

section \<open>Events\<close>

definition emitEvent :: "'b Processor \<Rightarrow> JobEvent \<Rightarrow> 'b world \<Rightarrow> 'b world" where
  "emitEvent p ev w =
     (case p_events p of
        None \<Rightarrow> w
      | Some cap \<Rightarrow>
          if int (length (events w)) < cap then w\<lparr>events := events w @ [ev]\<rparr>
          else log_line Debug ''metrics event dropped''
                 [(''type'', LStr (ev_Type ev)), (''jid'', LStr (JID (heap w (ev_Job ev))))] w)"

definition mk_event :: "string \<Rightarrow> jobref \<Rightarrow> string \<Rightarrow> dur \<Rightarrow> error option \<Rightarrow> JobEvent" where
  "mk_event ty r q d e = \<lparr>ev_Type = ty, ev_Job = r, ev_Queue = q, ev_Duration = d, ev_Err = e\<rparr>"

text \<open>
  The \<open>select\<close> of \<open>metricsLoop\<close>: \<open>None\<close> is the blocked state, \<open>Some None\<close> the end of
  the context, \<open>Some (Some ev)\<close> an event taken from the channel; when both cases are ready Go picks one.
  No code closes the channel, so the exit for a closed channel is never taken. \<open>metrics_turn\<close> is
  one pass of the loop: \<open>None\<close> when it is blocked, \<open>Some (False, w)\<close> when it returns.
\<close>

definition metrics_select :: "'b world \<Rightarrow> JobEvent option option \<times> 'b world" where
  "metrics_select w =
     (let stopped = (ctx_Err w ProcCtx \<noteq> None) in
      case events w of
        [] \<Rightarrow> (if stopped then Some None else None, w)
      | ev # evs \<Rightarrow>
          if stopped then
            (let (c, w1) = select_choice w
             in if c then (Some (Some ev), w1\<lparr>events := evs\<rparr>) else (Some None, w1))
          else (Some (Some ev), w\<lparr>events := evs\<rparr>))"

definition metrics_handle :: "'b Processor \<Rightarrow> JobEvent \<Rightarrow> 'b world \<Rightarrow> 'b world" where
  "metrics_handle p ev w = (case p_metrics p of None \<Rightarrow> w | Some h \<Rightarrow> h ev w)"

definition metrics_turn :: "'b Processor \<Rightarrow> 'b world \<Rightarrow> (bool \<times> 'b world) option" where
  "metrics_turn p w =
     (case metrics_select w of
        (None, _) \<Rightarrow> None
      | (Some None, w1) \<Rightarrow> Some (False, w1)
      | (Some (Some ev), w1) \<Rightarrow> Some (True, metrics_handle p ev w1))"

section \<open>Outcome handling\<close>

text \<open>
  The pattern \<^verbatim>\<open>if err := call; err != nil { p.log.X(msg, kvs..., "err", err) }\<close>.
\<close>

definition log_err :: "level \<Rightarrow> string \<Rightarrow> (string \<times> logval) list \<Rightarrow> 'b result \<Rightarrow> 'b world" where
  "log_err l msg kvs res =
     (case res of (None, w) \<Rightarrow> w | (Some e, w) \<Rightarrow> log_line l msg (kvs @ [(''err'', LErr e)]) w)"

abbreviation jid_field :: "'b world \<Rightarrow> jobref \<Rightarrow> (string \<times> logval) list" where
  "jid_field w r \<equiv> [(''jid'', LStr (JID (heap w r)))]"

text \<open>
  \<^verbatim>\<open>time.Duration(1<<uint(shift)) * time.Second\<close> at 64 bits: a shift count of 64 or more
  gives 0.
\<close>

definition backoff_delay :: "int \<Rightarrow> dur" where
  "backoff_delay shift =
     sint (push_bit (unat (word_of_int shift :: 64 word)) (1 :: 64 word) * 1000000000)"

definition capped_shift :: "int \<Rightarrow> int" where
  "capped_shift count = (if count > MaxBackoffShift then MaxBackoffShift else count)"

definition handleFailure :: "'b Broker \<Rightarrow> 'b Processor \<Rightarrow> jobref \<Rightarrow> error \<Rightarrow> 'b world \<Rightarrow> 'b world" where
  "handleFailure B p r jobErr w =
     (if errors_Is jobErr ErrCircuitOpen then
        (let w1 = upd_job r (\<lambda>j. j\<lparr>State := JobStatePending\<rparr>) w;
             (now, w2) = time_Now w1;
             w3 = log_err Warn ''circuit-open re-enqueue failed'' (jid_field w2 r)
                    (bk_AddToRetry B r (now + 5 * Second) w2)
         in log_err Warn ''ack failed after circuit-open re-enqueue'' (jid_field w3 r) (bk_Ack B r w3))
      else
        (let w1 = upd_job r (\<lambda>j. j\<lparr>RetryCount := wrap64 (RetryCount j + 1)\<rparr>) w
         in if RetryCount (heap w1 r) \<le> Retry (heap w1 r) then
              (let delay = backoff_delay (capped_shift (RetryCount (heap w1 r)));
                   (now, w2) = time_Now w1;
                   w3 = emitEvent p (mk_event EventJobRetryScheduled r (Queue (heap w2 r)) 0 (Some jobErr)) w2;
                   w4 = log_err Warn ''retry schedule failed'' (jid_field w3 r)
                          (bk_AddToRetry B r (now + delay) w3)
               in log_err Warn ''ack failed after retry schedule'' (jid_field w4 r) (bk_Ack B r w4))
            else
              (let w2 = upd_job r (\<lambda>j. j\<lparr>State := JobStateDead\<rparr>) w1;
                   w3 = log_line Warn ''job exceeded max retries, moving to dead queue''
                          (jid_field w2 r @ [(''class'', LStr (Class (heap w2 r))),
                             (''queue'', LStr (Queue (heap w2 r))), (''retries'', LInt (RetryCount (heap w2 r)))]) w2;
                   w4 = emitEvent p (mk_event EventJobMovedToDead r (Queue (heap w3 r)) 0 (Some jobErr)) w3;
                   w5 = log_err Warn ''move to dead failed''
                          (jid_field w4 r @ [(''class'', LStr (Class (heap w4 r)))]) (bk_AddToDead B r w4)
               in log_err Warn ''ack failed after dead-letter'' (jid_field w5 r) (bk_Ack B r w5))))"

text \<open>What \<open>processJob\<close> does once the handler has returned.\<close>

definition finishJob ::
  "'b Broker \<Rightarrow> 'b Processor \<Rightarrow> jobref \<Rightarrow> string \<Rightarrow> dur \<Rightarrow> error option \<Rightarrow> 'b world \<Rightarrow> 'b world" where
  "finishJob B p r queue duration err w =
     (case err of
        Some e \<Rightarrow>
          (let w1 = upd_job r (\<lambda>j. j\<lparr>State := JobStateFailed\<rparr>) w;
               w2 = log_line Error ''job failed''
                      (jid_field w1 r @ [(''class'', LStr (Class (heap w1 r))), (''queue'', LStr queue),
                         (''err'', LErr e), (''dur'', LDur duration)]) w1;
               w3 = emitEvent p (mk_event EventJobFailed r queue duration (Some e)) w2;
               w4 = log_err Warn ''record failure stat failed'' (jid_field w3 r) (bk_RecordFailure B r w3)
           in handleFailure B p r e w4)
      | None \<Rightarrow>
          (let w1 = upd_job r (\<lambda>j. j\<lparr>State := JobStateSuccess\<rparr>) w;
               w2 = log_line Info ''job processed''
                      (jid_field w1 r @ [(''class'', LStr (Class (heap w1 r))), (''queue'', LStr queue),
                         (''dur'', LDur duration)]) w1;
               w3 = emitEvent p (mk_event EventJobSucceeded r queue duration None) w2;
               w4 = log_err Warn ''record success stat failed'' (jid_field w3 r) (bk_RecordSuccess B r w3)
           in log_err Warn ''ack failed'' (jid_field w4 r) (bk_Ack B r w4)))"

text \<open>
  The broker calls of \<open>finishJob\<close> and \<open>handleFailure\<close> one by one: recording the outcome, storing a
  failed job (with the message its \<open>Ack\<close> logs if it fails), and acknowledging it. Other goroutines run
  between them.
\<close>

definition ack_job :: "'b Broker \<Rightarrow> jobref \<Rightarrow> string \<Rightarrow> 'b world \<Rightarrow> 'b world" where
  "ack_job B r msg w = log_err Warn msg (jid_field w r) (bk_Ack B r w)"

definition record_outcome ::
  "'b Broker \<Rightarrow> 'b Processor \<Rightarrow> jobref \<Rightarrow> string \<Rightarrow> dur \<Rightarrow> error option \<Rightarrow> 'b world \<Rightarrow> 'b world" where
  "record_outcome B p r queue duration err w =
     (case err of
        Some e \<Rightarrow>
          (let w1 = upd_job r (\<lambda>j. j\<lparr>State := JobStateFailed\<rparr>) w;
               w2 = log_line Error ''job failed''
                      (jid_field w1 r @ [(''class'', LStr (Class (heap w1 r))), (''queue'', LStr queue),
                         (''err'', LErr e), (''dur'', LDur duration)]) w1;
               w3 = emitEvent p (mk_event EventJobFailed r queue duration (Some e)) w2
           in log_err Warn ''record failure stat failed'' (jid_field w3 r) (bk_RecordFailure B r w3))
      | None \<Rightarrow>
          (let w1 = upd_job r (\<lambda>j. j\<lparr>State := JobStateSuccess\<rparr>) w;
               w2 = log_line Info ''job processed''
                      (jid_field w1 r @ [(''class'', LStr (Class (heap w1 r))), (''queue'', LStr queue),
                         (''dur'', LDur duration)]) w1;
               w3 = emitEvent p (mk_event EventJobSucceeded r queue duration None) w2
           in log_err Warn ''record success stat failed'' (jid_field w3 r) (bk_RecordSuccess B r w3)))"

definition store_failure :: "'b Broker \<Rightarrow> 'b Processor \<Rightarrow> jobref \<Rightarrow> error \<Rightarrow> 'b world \<Rightarrow> string \<times> 'b world" where
  "store_failure B p r jobErr w =
     (if errors_Is jobErr ErrCircuitOpen then
        (let w1 = upd_job r (\<lambda>j. j\<lparr>State := JobStatePending\<rparr>) w;
             (now, w2) = time_Now w1
         in (''ack failed after circuit-open re-enqueue'',
             log_err Warn ''circuit-open re-enqueue failed'' (jid_field w2 r)
               (bk_AddToRetry B r (now + 5 * Second) w2)))
      else
        (let w1 = upd_job r (\<lambda>j. j\<lparr>RetryCount := wrap64 (RetryCount j + 1)\<rparr>) w
         in if RetryCount (heap w1 r) \<le> Retry (heap w1 r) then
              (let delay = backoff_delay (capped_shift (RetryCount (heap w1 r)));
                   (now, w2) = time_Now w1;
                   w3 = emitEvent p (mk_event EventJobRetryScheduled r (Queue (heap w2 r)) 0 (Some jobErr)) w2
               in (''ack failed after retry schedule'',
                   log_err Warn ''retry schedule failed'' (jid_field w3 r) (bk_AddToRetry B r (now + delay) w3)))
            else
              (let w2 = upd_job r (\<lambda>j. j\<lparr>State := JobStateDead\<rparr>) w1;
                   w3 = log_line Warn ''job exceeded max retries, moving to dead queue''
                          (jid_field w2 r @ [(''class'', LStr (Class (heap w2 r))),
                             (''queue'', LStr (Queue (heap w2 r))), (''retries'', LInt (RetryCount (heap w2 r)))]) w2;
                   w4 = emitEvent p (mk_event EventJobMovedToDead r (Queue (heap w3 r)) 0 (Some jobErr)) w3
               in (''ack failed after dead-letter'',
                   log_err Warn ''move to dead failed''
                     (jid_field w4 r @ [(''class'', LStr (Class (heap w4 r)))]) (bk_AddToDead B r w4)))))"

lemma handleFailure_split:
  "handleFailure B p r e w = (case store_failure B p r e w of (msg, w1) \<Rightarrow> ack_job B r msg w1)"
  by (simp only: handleFailure_def store_failure_def ack_job_def Let_def case_prod_beta split: if_split) simp

lemma finishJob_split:
  "finishJob B p r q d err w =
     (case err of None \<Rightarrow> ack_job B r ''ack failed'' (record_outcome B p r q d err w)
      | Some e \<Rightarrow> handleFailure B p r e (record_outcome B p r q d err w))"
  by (simp only: finishJob_def record_outcome_def ack_job_def Let_def split: option.split) simp

text \<open>
  \<open>processJob\<close>: \<open>startJob\<close> is its part before the handler runs, which gives the start
  time and the context of the run. The result \<open>None\<close> is a panic that no middleware
  recovered: it ends the process.
\<close>

definition startJob :: "'b Processor \<Rightarrow> jobref \<Rightarrow> string \<Rightarrow> 'b world \<Rightarrow> time \<times> ctx \<times> 'b world" where
  "startJob p r queue w =
     (let (start, w1) = time_Now w;
          w2 = emitEvent p (mk_event EventJobStarted r queue 0 None) w1;
          (t, w3) = time_Now w2
      in (start, WithTimeout ProcCtx (t + GetTimeout (p_cfg p)),
          upd_job r (\<lambda>j. j\<lparr>State := JobStateActive\<rparr>) w3))"

definition processJob ::
  "'b Broker \<Rightarrow> 'b perform \<Rightarrow> 'b Processor \<Rightarrow> jobref \<Rightarrow> string \<Rightarrow> 'b world \<Rightarrow> 'b world option" where
  "processJob B perform p r queue w =
     (let (start, ctx, w1) = startJob p r queue w
      in case run_handler perform p ctx r w1 of
           (Panicked, _) \<Rightarrow> None
         | (Returned err, w2) \<Rightarrow>
             (let (stop, w3) = time_Now w2
              in Some (finishJob B p r queue (stop - start) err w3)))"

section \<open>The fetcher\<close>

text \<open>
  One turn of the loop: poll the queue under the cursor. \<open>FStop\<close> ends the loop,
  \<open>FHolding\<close> goes on to hand the job over. In the shutdown branch \<open>FRescue\<close> has failed to
  enqueue the job again, and \<open>FLeave\<close> has only to acknowledge it.
\<close>

datatype fetch = FStop | FAgain nat | FHolding jobref string nat | FRescue jobref | FLeave jobref

definition fetch_poll :: "'b Broker \<Rightarrow> 'b Processor \<Rightarrow> nat \<Rightarrow> 'b world \<Rightarrow> (fetch \<times> 'b world) option" where
  "fetch_poll B p cursor w =
     (if ctx_Err w ProcCtx \<noteq> None then Some (FStop, w)
      else
        (let currentQueue = p_queues p ! cursor;
             cursor1 = (cursor + 1) mod length (p_queues p)
         in case bk_Dequeue B [currentQueue] Second w of
              None \<Rightarrow> None
            | Some (Inl err, w1) \<Rightarrow>
                Some (FAgain cursor1,
                  log_line Warn ''dequeue failed'' [(''queue'', LStr currentQueue), (''err'', LErr err)] w1)
            | Some (Inr None, w1) \<Rightarrow> Some (FAgain cursor1, w1)
            | Some (Inr (Some (r, q)), w1) \<Rightarrow>
                Some (FHolding r q cursor1,
                  log_line Info ''job dequeued''
                    (jid_field w1 r @ [(''class'', LStr (Class (heap w1 r))), (''queue'', LStr q)]) w1)))"

text \<open>The shutdown branch of the hand-over: the job goes back to its queue or to retry.\<close>

definition fetch_shutdown :: "'b Broker \<Rightarrow> jobref \<Rightarrow> string \<Rightarrow> 'b world \<Rightarrow> 'b world" where
  "fetch_shutdown B r q w =
     (let w1 = upd_job r (\<lambda>j. j\<lparr>State := JobStatePending\<rparr>) w;
          w2 = (case bk_Enqueue B Background q r w1 of
                  (None, w2) \<Rightarrow> w2
                | (Some err, w2) \<Rightarrow>
                    (let w3 = log_line Error ''failed to re-enqueue job on shutdown''
                                (jid_field w2 r @ [(''queue'', LStr q), (''err'', LErr err)]) w2;
                         (now, w4) = time_Now w3
                     in log_err Error ''failed to add job to retry on shutdown, job may be lost''
                          (jid_field w4 r) (bk_AddToRetry B r now w4)))
      in log_err Warn ''ack failed on shutdown'' (jid_field w2 r) (bk_Ack B r w2))"

text \<open>The same branch call by call, up to its \<open>Ack\<close>.\<close>

definition shutdown_enqueue :: "'b Broker \<Rightarrow> jobref \<Rightarrow> string \<Rightarrow> 'b world \<Rightarrow> fetch \<times> 'b world" where
  "shutdown_enqueue B r q w =
     (let w1 = upd_job r (\<lambda>j. j\<lparr>State := JobStatePending\<rparr>) w
      in case bk_Enqueue B Background q r w1 of
           (None, w2) \<Rightarrow> (FLeave r, w2)
         | (Some err, w2) \<Rightarrow>
             (FRescue r, log_line Error ''failed to re-enqueue job on shutdown''
                (jid_field w2 r @ [(''queue'', LStr q), (''err'', LErr err)]) w2))"

definition shutdown_rescue :: "'b Broker \<Rightarrow> jobref \<Rightarrow> 'b world \<Rightarrow> 'b world" where
  "shutdown_rescue B r w =
     (let (now, w1) = time_Now w
      in log_err Error ''failed to add job to retry on shutdown, job may be lost''
           (jid_field w1 r) (bk_AddToRetry B r now w1))"

lemma fetch_shutdown_split:
  "fetch_shutdown B r q w =
     (case shutdown_enqueue B r q w of
        (f, w1) \<Rightarrow> ack_job B r ''ack failed on shutdown'' (if f = FLeave r then w1 else shutdown_rescue B r w1))"
  by (simp add: fetch_shutdown_def shutdown_enqueue_def shutdown_rescue_def ack_job_def Let_def case_prod_beta
      split: option.split prod.split)

text \<open>
  The hand-over \<open>select\<close>: \<open>receiver\<close> says that a worker is waiting on the channel.
  \<open>None\<close> is the blocked state, \<open>Some True\<close> the send, \<open>Some False\<close> the shutdown.
\<close>

definition fetch_select :: "bool \<Rightarrow> 'b world \<Rightarrow> bool option \<times> 'b world" where
  "fetch_select receiver w =
     (if receiver \<and> ctx_Err w ProcCtx \<noteq> None then (let (c, w1) = select_choice w in (Some c, w1))
      else if receiver then (Some True, w)
      else if ctx_Err w ProcCtx \<noteq> None then (Some False, w)
      else (None, w))"

section \<open>The maintenance loops\<close>

definition retry_interval :: "'b Processor \<Rightarrow> dur" where
  "retry_interval p = (if RetryPollInterval (p_cfg p) \<le> 0 then 5 * Second else RetryPollInterval (p_cfg p))"

definition reaper_interval :: "'b Processor \<Rightarrow> dur" where
  "reaper_interval p = (if ReaperInterval (p_cfg p) \<le> 0 then 30 * Second else ReaperInterval (p_cfg p))"

text \<open>
  What \<open>retryLoop\<close> does with one due job; \<open>retry_again\<close> is its branch for a failed
  \<open>Enqueue\<close>.
\<close>

definition retry_again :: "'b Broker \<Rightarrow> jobref \<Rightarrow> error \<Rightarrow> 'b world \<Rightarrow> 'b world" where
  "retry_again B r err w =
     (let w1 = upd_job r (\<lambda>j. j\<lparr>RetryCount := wrap64 (RetryCount j + 1)\<rparr>) w
      in if RetryCount (heap w1 r) > Retry (heap w1 r) then
           (let w2 = upd_job r (\<lambda>j. j\<lparr>State := JobStateDead\<rparr>) w1;
                w3 = log_line Warn ''retry re-enqueue failed and retries exhausted, moving to dead queue''
                       (jid_field w2 r @ [(''class'', LStr (Class (heap w2 r))), (''err'', LErr err)]) w2
            in log_err Error ''failed to move job to dead queue, job may be lost''
                 (jid_field w3 r) (bk_AddToDead B r w3))
         else
           (let w2 = log_line Warn ''re-enqueue retry job failed, re-adding to retry''
                       (jid_field w1 r @ [(''retry_count'', LInt (RetryCount (heap w1 r))),
                          (''err'', LErr err)]) w1;
                (now, w3) = time_Now w2
            in log_err Error ''failed to re-add job to retry set, job may be lost''
                 (jid_field w3 r) (bk_AddToRetry B r (now + Minute) w3)))"

definition retry_one :: "'b Broker \<Rightarrow> 'b Processor \<Rightarrow> jobref \<Rightarrow> 'b world \<Rightarrow> 'b world" where
  "retry_one B p r w =
     (if Queue (heap w r) \<notin> set (p_queueSet p) then
        log_line Warn ''retry job has unknown queue, skipping''
          (jid_field w r @ [(''queue'', LStr (Queue (heap w r)))]) w
      else case bk_RemoveFromRetry B r w of
             (Some err, w1) \<Rightarrow> log_line Warn ''remove from retry failed'' (jid_field w1 r @ [(''err'', LErr err)]) w1
           | (None, w1) \<Rightarrow>
               (let w2 = upd_job r (\<lambda>j. j\<lparr>State := JobStatePending\<rparr>) w1
                in case bk_Enqueue B ProcCtx (Queue (heap w2 r)) r w2 of
                     (None, w3) \<Rightarrow> w3
                   | (Some err, w3) \<Rightarrow> retry_again B r err w3))"

text \<open>
  The two broker calls of \<open>retry_one\<close> one by one: taking the job out of the retry set, and putting it
  back into its queue. Between them the job is in no set of the broker.
\<close>

definition retry_take :: "'b Broker \<Rightarrow> 'b Processor \<Rightarrow> jobref \<Rightarrow> 'b world \<Rightarrow> bool \<times> 'b world" where
  "retry_take B p r w =
     (if Queue (heap w r) \<notin> set (p_queueSet p) then
        (False, log_line Warn ''retry job has unknown queue, skipping''
          (jid_field w r @ [(''queue'', LStr (Queue (heap w r)))]) w)
      else case bk_RemoveFromRetry B r w of
             (Some err, w1) \<Rightarrow>
               (False, log_line Warn ''remove from retry failed'' (jid_field w1 r @ [(''err'', LErr err)]) w1)
           | (None, w1) \<Rightarrow> (True, w1))"

definition retry_put :: "'b Broker \<Rightarrow> jobref \<Rightarrow> 'b world \<Rightarrow> 'b world" where
  "retry_put B r w =
     (let w1 = upd_job r (\<lambda>j. j\<lparr>State := JobStatePending\<rparr>) w
      in case bk_Enqueue B ProcCtx (Queue (heap w1 r)) r w1 of
           (None, w2) \<Rightarrow> w2
         | (Some err, w2) \<Rightarrow> retry_again B r err w2)"

lemma retry_one_split:
  "retry_one B p r w = (case retry_take B p r w of (taken, w1) \<Rightarrow> if taken then retry_put B r w1 else w1)"
  by (simp add: retry_one_def retry_take_def retry_put_def split: prod.split option.split)

text \<open>The first call of \<open>retry_put\<close>; \<open>retry_again\<close> follows when it fails.\<close>

definition retry_enqueue :: "'b Broker \<Rightarrow> jobref \<Rightarrow> 'b world \<Rightarrow> error option \<times> 'b world" where
  "retry_enqueue B r w =
     (let w1 = upd_job r (\<lambda>j. j\<lparr>State := JobStatePending\<rparr>) w
      in bk_Enqueue B ProcCtx (Queue (heap w1 r)) r w1)"

lemma retry_put_split:
  "retry_put B r w =
     (case retry_enqueue B r w of (None, w1) \<Rightarrow> w1 | (Some err, w1) \<Rightarrow> retry_again B r err w1)"
  by (simp add: retry_put_def retry_enqueue_def Let_def)

definition retry_tick :: "'b Broker \<Rightarrow> 'b Processor \<Rightarrow> 'b world \<Rightarrow> 'b world" where
  "retry_tick B p w =
     (case bk_GetRetryJobs B 100 w of
        (Inl err, w1) \<Rightarrow> log_line Warn ''get retry jobs failed'' [(''err'', LErr err)] w1
      | (Inr jobs, w1) \<Rightarrow> fold (retry_one B p) jobs w1)"

text \<open>What \<open>reaperLoop\<close> does with one job whose lease had expired.\<close>

definition reap_one :: "'b Broker \<Rightarrow> 'b Processor \<Rightarrow> jobref \<Rightarrow> 'b world \<Rightarrow> 'b world" where
  "reap_one B p r w =
     (if Queue (heap w r) \<notin> set (p_queueSet p) then
        log_line Warn ''orphaned job has unknown queue, skipping''
          (jid_field w r @ [(''queue'', LStr (Queue (heap w r)))]) w
      else
        (let w1 = log_line Info ''reaping orphaned job''
                    (jid_field w r @ [(''class'', LStr (Class (heap w r))), (''queue'', LStr (Queue (heap w r)))]) w
         in log_err Error ''failed to re-enqueue orphaned job'' (jid_field w1 r)
              (bk_Enqueue B ProcCtx (Queue (heap w1 r)) r w1)))"

definition reaper_tick :: "'b Broker \<Rightarrow> 'b Processor \<Rightarrow> 'b world \<Rightarrow> 'b world" where
  "reaper_tick B p w =
     (case bk_ReapOrphanedJobs B 0 w of
        (Inl err, w1) \<Rightarrow> log_line Warn ''reaper failed'' [(''err'', LErr err)] w1
      | (Inr orphaned, w1) \<Rightarrow> fold (reap_one B p) orphaned w1)"

section \<open>Lifecycle and settings\<close>

datatype goroutine = Fetcher | WorkerLoop | RetryLoop | ReaperLoop | MetricsLoop

definition Start :: "'b Processor \<Rightarrow> 'b world \<Rightarrow> (error + 'b Processor \<times> goroutine list) \<times> 'b world" where
  "Start p w =
     (if p_started p then (Inl ProcessorAlreadyStarted, w)
      else
        (let p1 = p\<lparr>p_started := True, p_handler := p_chain p\<rparr>;
             w1 = log_line Info ''engine started''
                    [(''concurrency'', LInt (Concurrency (p_cfg p))), (''queues'', LStrs (p_queues p))] w
         in (Inr (p1, [Fetcher] @ replicate (nat (Concurrency (p_cfg p))) WorkerLoop @
                [RetryLoop, ReaperLoop] @ (if p_events p \<noteq> None then [MetricsLoop] else [])), w1)))"

text \<open>\<open>Stop\<close> up to its wait for the goroutines, and its last line after the wait.\<close>

definition Stop_begin :: "'b world \<Rightarrow> 'b world" where
  "Stop_begin w = (log_line Info ''engine stopping'' [] w)\<lparr>cancelled := True\<rparr>"

definition Stop_end :: "'b world \<Rightarrow> 'b world" where
  "Stop_end w = log_line Info ''engine stopped'' [] w"

definition SetRedactor :: "Redactor option \<Rightarrow> 'b Processor \<Rightarrow> error option \<times> 'b Processor" where
  "SetRedactor r p =
     (if p_started p then (Some (MustBeBeforeStart ''SetRedactor''), p) else (None, p\<lparr>p_redactor := r\<rparr>))"

definition SetValidator :: "Validator option \<Rightarrow> 'b Processor \<Rightarrow> error option \<times> 'b Processor" where
  "SetValidator v p =
     (if p_started p then (Some (MustBeBeforeStart ''SetValidator''), p) else (None, p\<lparr>p_validator := v\<rparr>))"

definition SetMetricsHandler ::
  "(JobEvent \<Rightarrow> 'b world \<Rightarrow> 'b world) option \<Rightarrow> 'b Processor \<Rightarrow> error option \<times> 'b Processor" where
  "SetMetricsHandler h p =
     (if p_started p then (Some (MustBeBeforeStart ''SetMetricsHandler''), p)
      else
        (let p1 = p\<lparr>p_metrics := h\<rparr>
         in if h \<noteq> None \<and> p_events p1 = None
            then (let s = wrap64 (Concurrency (p_cfg p1) * 10)
                  in (None, p1\<lparr>p_events := Some (if s < 10 then 10 else s)\<rparr>))
            else (None, p1)))"

section \<open>Vocabulary of the properties\<close>

text \<open>
  The queues the fetcher polls in \<open>n\<close> turns from \<open>cursor\<close>, as long as it is not stopped;
  a job it finds is handed over between two turns.
\<close>

fun polled :: "'b Broker \<Rightarrow> 'b Processor \<Rightarrow> nat \<Rightarrow> nat \<Rightarrow> 'b world \<Rightarrow> string list option" where
  "polled B p 0 cursor w = Some []"
| "polled B p (Suc n) cursor w =
     (case fetch_poll B p cursor w of
        Some (FAgain c, w1) \<Rightarrow> map_option ((#) (p_queues p ! cursor)) (polled B p n c w1)
      | Some (FHolding r q c, w1) \<Rightarrow> map_option ((#) (p_queues p ! cursor)) (polled B p n c w1)
      | _ \<Rightarrow> None)"

text \<open>The event channel of capacity \<open>cap\<close>, and the events of a finished run.\<close>

definition push_event :: "int option \<Rightarrow> JobEvent \<Rightarrow> JobEvent list \<Rightarrow> JobEvent list" where
  "push_event cap ev evs =
     (case cap of None \<Rightarrow> evs | Some n \<Rightarrow> if int (length evs) < n then evs @ [ev] else evs)"

definition outcome_events :: "jobref \<Rightarrow> string \<Rightarrow> dur \<Rightarrow> error option \<Rightarrow> Job \<Rightarrow> JobEvent list" where
  "outcome_events r q d err j =
     (case err of
        None \<Rightarrow> [mk_event EventJobSucceeded r q d None]
      | Some e \<Rightarrow> mk_event EventJobFailed r q d err #
          (if errors_Is e ErrCircuitOpen then []
           else if RetryCount j < Retry j then [mk_event EventJobRetryScheduled r (Queue j) 0 err]
           else [mk_event EventJobMovedToDead r (Queue j) 0 err]))"

section \<open>Back-off\<close>

lemma backoff_delay_eq:
  assumes "0 \<le> n" "n \<le> 30" shows "backoff_delay n = 2 ^ nat n * Second"
proof -
  have u: "unat (word_of_int n :: 64 word) = nat n"
    using assms by (simp add: unat_eq_nat_uint uint_word_of_int)
  have p: "(2::int) ^ nat n \<le> 2 ^ 30" using assms by (intro power_increasing) auto
  have "push_bit (nat n) (1 :: 64 word) * 1000000000 = word_of_int (2 ^ nat n * 1000000000)"
    by (simp add: push_bit_eq_mult)
  moreover have "signed_take_bit 63 (2 ^ nat n * 1000000000) = (2 ^ nat n * 1000000000 :: int)"
    using p by (intro signed_take_bit_int_eq_self) (auto intro: order_trans [of _ 0])
  ultimately show ?thesis
    unfolding backoff_delay_def u by (simp only: sint_sbintrunc') simp
qed

text \<open>The delay a failed job waits: exponential in its retry count up to the cap.\<close>

lemma backoff_capped:
  "0 \<le> count \<Longrightarrow> backoff_delay (capped_shift count) = 2 ^ nat (min count MaxBackoffShift) * Second"
  using backoff_delay_eq [of "min count MaxBackoffShift"]
  by (auto simp: capped_shift_def job_consts min_def)

text \<open>
  C23: the back-off after a failure doubles with the retry count up to the cap of 30, lies
  between a second and the range of \<open>time.Duration\<close> (no wrap-around at 64 bits), and never
  decreases with the count.
\<close>

theorem backoff_bounds:
  assumes "0 \<le> count"
  shows "backoff_delay (capped_shift count) = 2 ^ nat (min count MaxBackoffShift) * Second \<and>
    Second \<le> backoff_delay (capped_shift count) \<and> in64 (backoff_delay (capped_shift count)) \<and>
    backoff_delay (capped_shift count) \<le> backoff_delay (capped_shift (count + 1))"
proof -
  let ?e = "nat (min count MaxBackoffShift)" and ?e' = "nat (min (count + 1) MaxBackoffShift)"
  have "(2::int) ^ ?e \<le> 2 ^ 30" by (intro power_increasing) (auto simp: job_consts)
  moreover have "(2::int) ^ ?e \<le> 2 ^ ?e'" by (intro power_increasing) auto
  moreover have "(1::int) \<le> 2 ^ ?e" by simp
  ultimately have "Second \<le> 2 ^ ?e * Second \<and> 2 ^ ?e * Second < 2 ^ 63 \<and> 2 ^ ?e * Second \<le> 2 ^ ?e' * Second"
    by auto
  then show ?thesis
    using backoff_capped [OF assms] backoff_capped [of "count + 1"] assms unfolding in64_def by linarith
qed

theorem backoff_bounds_witness: "backoff_delay (capped_shift 40) = 1073741824 * Second"
  using backoff_bounds [of 40] by (simp add: job_consts)

section \<open>Polling order\<close>

lemma fetch_poll_cursor:
  "fetch_poll B p cursor w = Some (FAgain c, w1) \<or> fetch_poll B p cursor w = Some (FHolding r q c, w1) \<Longrightarrow>
     c = Suc cursor mod length (p_queues p)"
  by (auto simp: fetch_poll_def Let_def split: if_splits option.splits prod.splits sum.splits)

lemma polled_rotate:
  "polled B p n cursor w = Some l \<Longrightarrow> cursor < length (p_queues p) \<Longrightarrow>
   l = map (\<lambda>i. p_queues p ! ((cursor + i) mod length (p_queues p))) [0..<n]"
proof (induction n arbitrary: cursor w l)
  case (Suc n)
  let ?N = "length (p_queues p)" and ?c = "Suc cursor mod length (p_queues p)"
  from Suc.prems(1) obtain w1 l' where l: "l = p_queues p ! cursor # l'" "polled B p n ?c w1 = Some l'"
    using fetch_poll_cursor [of B p cursor w]
    by (auto split: option.splits prod.splits fetch.splits)
  have "?N > 0" using Suc.prems(2) by linarith
  then have "l' = map (\<lambda>i. p_queues p ! ((?c + i) mod ?N)) [0..<n]"
    using Suc.IH [OF l(2)] by simp
  also have "\<dots> = map (\<lambda>i. p_queues p ! ((cursor + i) mod ?N)) [1..<Suc n]"
    unfolding map_Suc_upt [symmetric] One_nat_def by (simp add: mod_add_left_eq)
  finally show ?case using l(1) Suc.prems(2) by (simp add: upt_conv_Cons del: upt_Suc)
qed simp

lemma count_list_rotate: "count_list (rotate n xs) x = count_list xs x"
proof (induction n)
  case (Suc n)
  have "count_list (rotate1 ys) x = count_list ys x" for ys :: "'a list"
    by (cases ys) (simp_all add: count_list_append)
  with Suc show ?case by simp
qed simp

lemma rotate_conv_nth: "map (\<lambda>i. xs ! ((c + i) mod length xs)) [0..<length xs] = rotate c xs"
  by (rule nth_equalityI) (simp_all add: nth_rotate add.commute)

lemma count_list_replicate: "count_list (replicate n x) y = (if x = y then n else 0)"
  by (induction n) auto

lemma weighted_queues_Cons:
  "weighted_queues (qc # qcs) = replicate (nat (max 1 (Weight qc))) (Name qc) @ weighted_queues qcs"
  by (simp add: weighted_queues_def Let_def max_def)

lemma count_weighted:
  "distinct (map Name qcs) \<Longrightarrow>
     count_list (weighted_queues qcs) x =
       (case find (\<lambda>qc. Name qc = x) qcs of None \<Rightarrow> 0 | Some qc \<Rightarrow> nat (max 1 (Weight qc)))"
proof (induction qcs)
  case Nil
  then show ?case by (simp add: weighted_queues_def)
next
  case (Cons a qcs)
  have "find (\<lambda>qc. Name qc = x) qcs = None" if "Name a = x"
    using Cons.prems that unfolding find_None_iff by (simp, metis image_eqI)
  with Cons show ?case
    by (auto simp: weighted_queues_Cons count_list_append count_list_replicate)
qed

lemma find_by_name:
  "distinct (map Name qcs) \<Longrightarrow> qc \<in> set qcs \<Longrightarrow> find (\<lambda>c. Name c = Name qc) qcs = Some qc"
  by (induction qcs) auto

section \<open>Events, log lines and settings\<close>

lemma clock_time_Now [simp]: "clock (snd (time_Now w)) i = clock w (Suc i)"
  by (simp add: time_Now_def)

lemma emitEvent_sel [simp]:
  "brk (emitEvent p ev w) = brk w" "heap (emitEvent p ev w) = heap w" "clock (emitEvent p ev w) = clock w"
  by (simp_all add: emitEvent_def split: option.split)

lemma log_err_None [simp]: "log_err l m k (None, w) = w"
  by (simp add: log_err_def)

lemma log_err_sel [simp]:
  "events (log_err l m k res) = events (snd res)" "heap (log_err l m k res) = heap (snd res)"
  by (cases res; cases "fst res"; simp add: log_err_def)+

lemma emitEvent_events: "events (emitEvent p ev w) = push_event (p_events p) ev (events w)"
  by (simp add: emitEvent_def push_event_def split: option.split)

lemma push_event_bound:
  "int (length evs) \<le> cap \<Longrightarrow> int (length (fold (push_event (Some cap)) new evs)) \<le> cap"
  by (induction new arbitrary: evs) (auto simp: push_event_def)

text \<open>
  \<open>Start\<close> works once: it launches one fetcher, \<open>Concurrency\<close> workers, one retry
  loop and one reaper on the chain configured so far, and from then on \<open>Start\<close> and every setter
  answers with an error and changes nothing.
\<close>

lemma settings_frozen:
  assumes "Start p w = (Inr (p', gs), w')"
  shows "\<not> p_started p \<and> p_handler p' = p_chain p \<and>
    fst (Start p' w') = Inl ProcessorAlreadyStarted \<and>
    SetRedactor rd p' = (Some (MustBeBeforeStart ''SetRedactor''), p') \<and>
    SetValidator v p' = (Some (MustBeBeforeStart ''SetValidator''), p') \<and>
    SetMetricsHandler h p' = (Some (MustBeBeforeStart ''SetMetricsHandler''), p') \<and>
    count_list gs Fetcher = 1 \<and> count_list gs WorkerLoop = nat (Concurrency (p_cfg p)) \<and>
    count_list gs RetryLoop = 1 \<and> count_list gs ReaperLoop = 1"
  using assms
  by (auto simp: Start_def SetRedactor_def SetValidator_def SetMetricsHandler_def Let_def
      count_list_append count_list_replicate split: if_splits)

lemma settings_frozen_witness:
  "\<exists>p'. SetValidator None p' = (Some (MustBeBeforeStart ''SetValidator''), p' :: unit Processor)"
proof -
  obtain p' gs w' where "Start (NewProcessor demo_config None None) (start_world () []) = (Inr (p', gs), w')"
    by (simp add: Start_def NewProcessor_def Let_def)
  from settings_frozen [OF this] show ?thesis by blast
qed

end
