(* ===== verification/Job_Safety.thy ===== *)
theory Job_Safety
  imports Processor Memory_Broker
begin

text \<open>
  No job is lost. Inside the broker contract: what a run of a job, a turn of the retry loop
  and a turn of the reaper leave of the jobs the broker holds. The properties at the end are
  these lemmas on the in-memory broker.
\<close>

section \<open>Vocabulary of the properties\<close>

definition never_panics :: "'b Handler \<Rightarrow> bool" where
  "never_panics h \<longleftrightarrow> (\<forall>ctx r w. fst (h ctx r w) \<noteq> Panicked)"

text \<open>
  The state of the in-memory broker and of the job after a run that ended with \<open>err\<close> in
  the world \<open>w\<close>; \<open>now\<close> is the reading of the clock the retry time is computed from.
\<close>

definition settle :: "error option \<Rightarrow> jobref \<Rightarrow> time \<Rightarrow> mem_world \<Rightarrow> InMemoryBroker" where
  "settle err r now w =
     (let j = heap w r;
          m = (brk w)\<lparr>processing := remove_first (\<lambda>e. JID (heap w (pe_Job e)) = JID j) (processing (brk w))\<rparr>
      in case err of
           None \<Rightarrow> m\<lparr>processed := wrap64 (processed m + 1)\<rparr>
         | Some e \<Rightarrow>
             (let m1 = m\<lparr>failed := wrap64 (failed m + 1)\<rparr>
              in if errors_Is e ErrCircuitOpen then
                   m1\<lparr>retry := retry m1 @ [\<lparr>re_Job = r, RetryAt = now + 5 * Second\<rparr>]\<rparr>
                 else if RetryCount j < Retry j then
                   m1\<lparr>retry := retry m1 @ [\<lparr>re_Job = r, RetryAt = now + 2 ^ nat (RetryCount j + 1) * Second\<rparr>]\<rparr>
                 else m1\<lparr>dead := dead m1 @ [r]\<rparr>))"

definition settled_job :: "error option \<Rightarrow> Job \<Rightarrow> Job" where
  "settled_job err j =
     (case err of
        None \<Rightarrow> j\<lparr>State := JobStateSuccess\<rparr>
      | Some e \<Rightarrow>
          if errors_Is e ErrCircuitOpen then j\<lparr>State := JobStatePending\<rparr>
          else if RetryCount j < Retry j then j\<lparr>RetryCount := RetryCount j + 1, State := JobStateFailed\<rparr>
          else j\<lparr>RetryCount := RetryCount j + 1, State := JobStateDead\<rparr>)"

text \<open>A concrete processor, a job of a queue it does not serve, and a worker that fails.\<close>

definition demo_processor :: "'b Processor" where
  "demo_processor = (NewProcessor demo_config (Some (\<lambda>_ _. (Some 0, None))) None)\<lparr>p_events := Some 10\<rparr>"

abbreviation fails :: "'b perform" where "fails \<equiv> \<lambda>_ _ _ w. (Returned (Some BrokerClosed), w)"

definition demo_foreign :: mem_world where
  "demo_foreign = start_world (NewInMemoryBroker\<lparr>processing :=
     [\<lparr>pe_Job = 1, pe_Queue = ''default'', LeaseExp = -1\<rparr>, \<lparr>pe_Job = 0, pe_Queue = ''other'', LeaseExp = -1\<rparr>]\<rparr>)
     [(demo_job ''a'')\<lparr>Queue := ''other''\<rparr>, demo_job ''b'']"

text \<open>An expired lease, and a due retry of a processor that is being stopped.\<close>

definition demo_orphan :: mem_world where
  "demo_orphan = start_world (NewInMemoryBroker\<lparr>processing :=
     [\<lparr>pe_Job = 0, pe_Queue = ''default'', LeaseExp = -1\<rparr>]\<rparr>) [demo_job ''a'']"

definition demo_retry_stop :: mem_world where
  "demo_retry_stop = (start_world (NewInMemoryBroker\<lparr>retry := [\<lparr>re_Job = 0, RetryAt = 0\<rparr>]\<rparr>)
     [demo_job ''a''])\<lparr>cancelled := True\<rparr>"

definition demo_weights :: Config where
  "demo_weights = demo_config\<lparr>Queues := [\<lparr>Name = ''a'', Weight = 2\<rparr>, \<lparr>Name = ''b'', Weight = 0\<rparr>]\<rparr>"

definition demo_three :: mem_world where
  "demo_three = start_world (NewInMemoryBroker\<lparr>queues := [(''a'', [0, 1]), (''b'', [2])]\<rparr>)
     [demo_job ''x'', demo_job ''y'', demo_job ''z'']"

text \<open>
  The log lines with which the processor reports that a job may have been lost; each names the job in
  its field \<open>jid\<close>.
\<close>

definition loss_messages :: "string set" where
  "loss_messages = {''circuit-open re-enqueue failed'', ''retry schedule failed'', ''move to dead failed'',
     ''remove from retry failed'', ''failed to move job to dead queue, job may be lost'',
     ''failed to re-add job to retry set, job may be lost'',
     ''orphaned job has unknown queue, skipping'', ''failed to re-enqueue orphaned job'',
     ''failed to add job to retry on shutdown, job may be lost''}"

definition loss_line :: "string \<Rightarrow> string \<Rightarrow> (string \<times> logval) list \<Rightarrow> bool" where
  "loss_line jid m k \<longleftrightarrow> m \<in> loss_messages \<and> (''jid'', LStr jid) \<in> set k"

section \<open>Quiet steps and the shape of the outcome handling\<close>

text \<open>A step that touches neither the broker nor the identity of a job.\<close>

definition quiet :: "'b world \<Rightarrow> 'b world \<Rightarrow> bool" where
  "quiet w w' \<longleftrightarrow> brk w' = brk w \<and> next_ref w' = next_ref w \<and> same_ids w w'"

lemma quiet_refl [simp, intro]: "quiet w w"
  by (simp add: quiet_def)

lemma quiet_trans [trans]: "quiet u v \<Longrightarrow> quiet v w \<Longrightarrow> quiet u w"
  by (auto simp: quiet_def intro: same_ids_trans)

lemma quiet_log_line [simp, intro]: "quiet w (log_line l m k w)"
  by (simp add: quiet_def same_ids_def)

lemma quiet_time_Now [simp, intro]: "quiet w (snd (time_Now w))"
  by (simp add: quiet_def same_ids_def)

lemma quiet_emitEvent [simp, intro]: "quiet w (emitEvent p ev w)"
  by (simp add: emitEvent_def quiet_def same_ids_def split: option.split)

lemma quiet_upd_job: "(\<And>j. identity (f j) = identity j) \<Longrightarrow> quiet w (upd_job r f w)"
  by (simp add: quiet_def same_ids_upd_job)

lemma quiet_JID: "quiet w w' \<Longrightarrow> r < next_ref w \<Longrightarrow> JID (heap w' r) = JID (heap w r)"
  by (simp add: quiet_def same_ids_JID)

lemma quiet_log_err: "quiet (snd res) (log_err l m k res)"
  by (cases res; cases "fst res") (simp_all add: log_err_def)

text \<open>Setting one mutable field of the job through its pointer.\<close>

lemma quiet_set_State [simp, intro]: "quiet w (upd_job r (\<lambda>j. j\<lparr>State := s\<rparr>) w)"
  by (rule quiet_upd_job) simp

lemma quiet_inc_RetryCount [simp, intro]:
  "quiet w (upd_job r (\<lambda>j. j\<lparr>RetryCount := wrap64 (RetryCount j + 1)\<rparr>) w)"
  by (rule quiet_upd_job) simp

lemma heap_emitEvent [simp]: "heap (emitEvent p ev w) = heap w"
  by (simp add: emitEvent_def split: option.split)

text \<open>
  Every branch of \<open>handleFailure\<close> records the job in the retry set or the dead set and then
  acknowledges it.
\<close>

lemma store_failure_shape:
  obtains w1 l m k t where "quiet w w1"
    and "snd (store_failure B p r e w) = log_err l m k (bk_AddToRetry B r t w1) \<or>
      snd (store_failure B p r e w) = log_err l m k (bk_AddToDead B r w1)"
    and "loss_line (JID (heap w r)) m k"
proof -
  let ?inc = "upd_job r (\<lambda>j. j\<lparr>RetryCount := wrap64 (RetryCount j + 1)\<rparr>) w"
  let ?more = "RetryCount (heap ?inc r) \<le> Retry (heap ?inc r)"
  consider (circuit) "errors_Is e ErrCircuitOpen" | (again) "\<not> errors_Is e ErrCircuitOpen" ?more
    | (exhausted) "\<not> errors_Is e ErrCircuitOpen" "\<not> ?more"
    by blast
  then show thesis
  proof cases
    case circuit
    show ?thesis
      by (rule that [OF quiet_trans [OF quiet_set_State quiet_time_Now] disjI1])
        (simp only: store_failure_def circuit if_True Let_def case_prod_beta snd_conv, simp add: loss_line_def loss_messages_def)
  next
    case again
    show ?thesis
      by (rule that [OF quiet_trans [OF quiet_trans [OF quiet_inc_RetryCount quiet_time_Now]
              quiet_emitEvent] disjI1])
        (simp only: store_failure_def again if_True if_False Let_def case_prod_beta snd_conv,
         simp add: loss_line_def loss_messages_def)
  next
    case exhausted
    show ?thesis
      by (rule that [OF quiet_trans [OF quiet_trans [OF quiet_trans [OF quiet_inc_RetryCount
              quiet_set_State] quiet_log_line] quiet_emitEvent] disjI2])
        (simp only: store_failure_def exhausted if_False Let_def case_prod_beta snd_conv,
         simp add: loss_line_def loss_messages_def)
  qed
qed

lemma handleFailure_shape:
  obtains w1 w2 l m k t l' m' k' where "quiet w w1"
    and "w2 = log_err l m k (bk_AddToRetry B r t w1) \<or> w2 = log_err l m k (bk_AddToDead B r w1)"
    and "handleFailure B p r e w = log_err l' m' k' (bk_Ack B r w2)" and "loss_line (JID (heap w r)) m k"
proof -
  obtain w1 l m k t where sh: "quiet w w1"
    "snd (store_failure B p r e w) = log_err l m k (bk_AddToRetry B r t w1) \<or>
      snd (store_failure B p r e w) = log_err l m k (bk_AddToDead B r w1)"
    "loss_line (JID (heap w r)) m k"
    by (rule store_failure_shape)
  show thesis
    by (rule that [OF sh(1,2) _ sh(3)]) (simp add: handleFailure_split ack_job_def case_prod_beta)
qed

lemma finishJob_success_shape:
  obtains w1 l m k l' m' k' where "quiet w w1"
    and "finishJob B p r q d None w = log_err l' m' k' (bk_Ack B r (log_err l m k (bk_RecordSuccess B r w1)))"
  by (rule that [OF quiet_trans [OF quiet_trans [OF quiet_set_State quiet_log_line] quiet_emitEvent]])
    (simp only: finishJob_def option.case Let_def)

lemma finishJob_failure_shape:
  obtains w1 l m k where "quiet w w1"
    and "finishJob B p r q d (Some e) w = handleFailure B p r e (log_err l m k (bk_RecordFailure B r w1))"
  by (rule that [OF quiet_trans [OF quiet_trans [OF quiet_set_State quiet_log_line] quiet_emitEvent]])
    (simp only: finishJob_def option.case Let_def)

lemma startJob_quiet:
  assumes "startJob p r q w = (start, ctx, w1)"
  shows "quiet w w1" "heap w1 = (heap w)(r := (heap w r)\<lparr>State := JobStateActive\<rparr>)"
proof -
  let ?e = "emitEvent p (mk_event EventJobStarted r q 0 None) (snd (time_Now w))"
  have w1: "w1 = upd_job r (\<lambda>j. j\<lparr>State := JobStateActive\<rparr>) (snd (time_Now ?e))"
    using assms by (simp add: startJob_def Let_def case_prod_beta)
  show "quiet w w1" unfolding w1
    by (rule quiet_trans [OF quiet_trans [OF quiet_trans [OF quiet_time_Now quiet_emitEvent]
          quiet_time_Now] quiet_set_State])
  show "heap w1 = (heap w)(r := (heap w r)\<lparr>State := JobStateActive\<rparr>)" unfolding w1 by simp
qed

lemma processJob_eq:
  assumes "startJob p r q w = (start, ctx, w1)" "run_handler perform p ctx r w1 = (Returned err, w2)"
  shows "processJob B perform p r q w = Some (finishJob B p r q (clock w2 0 - start) err (snd (time_Now w2)))"
  by (simp add: processJob_def assms case_prod_beta)

lemma retry_again_shape:
  obtains w1 l m k t where "quiet w w1"
    and "retry_again B r err w = log_err l m k (bk_AddToDead B r w1) \<or>
      retry_again B r err w = log_err l m k (bk_AddToRetry B r t w1)" and "loss_line (JID (heap w r)) m k"
proof -
  let ?inc = "upd_job r (\<lambda>j. j\<lparr>RetryCount := wrap64 (RetryCount j + 1)\<rparr>) w"
  show thesis
  proof (cases "RetryCount (heap ?inc r) > Retry (heap ?inc r)")
    case True
    show ?thesis
      by (rule that [OF quiet_trans [OF quiet_trans [OF quiet_inc_RetryCount quiet_set_State] quiet_log_line]])
        (rule disjI1, simp only: retry_again_def True if_True Let_def, simp add: loss_line_def loss_messages_def)
  next
    case False
    show ?thesis
      by (rule that [OF quiet_trans [OF quiet_trans [OF quiet_inc_RetryCount quiet_log_line] quiet_time_Now]])
        (rule disjI2, simp only: retry_again_def False if_False Let_def case_prod_beta, simp add: loss_line_def loss_messages_def)
  qed
qed

text \<open>
  A handler is safe for a broker if it keeps the broker's invariant and takes no job out of
  its place: it may enqueue further jobs, log, read the clock and use the breaker.
\<close>

definition safe_handler :: "('b world \<Rightarrow> bool) \<Rightarrow> ('b world \<Rightarrow> places) \<Rightarrow> 'b Handler \<Rightarrow> bool" where
  "safe_handler invar where_is h \<longleftrightarrow>
     (\<forall>ctx r w out w'. invar w \<longrightarrow> r < next_ref w \<longrightarrow> h ctx r w = (out, w') \<longrightarrow>
        invar w' \<and> same_ids w w' \<and> places_le (where_is w) (where_is w'))"

lemma safe_handlerD:
  "safe_handler invar where_is h \<Longrightarrow> invar w \<Longrightarrow> r < next_ref w \<Longrightarrow> h ctx r w = (out, w') \<Longrightarrow>
     invar w' \<and> same_ids w w' \<and> places_le (where_is w) (where_is w')"
  unfolding safe_handler_def by blast

text \<open>The same demand on the workers the embedding program registers.\<close>

definition safe_perform :: "('b world \<Rightarrow> bool) \<Rightarrow> ('b world \<Rightarrow> places) \<Rightarrow> 'b perform \<Rightarrow> bool" where
  "safe_perform invar where_is perform \<longleftrightarrow>
     (\<forall>wk ctx args w out w'. invar w \<longrightarrow> perform wk ctx args w = (out, w') \<longrightarrow>
        invar w' \<and> same_ids w w' \<and> places_le (where_is w) (where_is w'))"

definition builtin_middleware :: "'b Middleware \<Rightarrow> bool" where
  "builtin_middleware m \<longleftrightarrow>
     m = RecoveryMiddleware \<or> (\<exists>rs. m = LoggingMiddleware rs) \<or> (\<exists>b. m = BreakerMiddleware b)"

text \<open>
  A handler that leaves the broker and the identities alone after running \<open>h\<close>, or that
  does not run \<open>h\<close> at all, is safe when \<open>h\<close> is: this covers the built-in middlewares.
\<close>

lemma Logging_quiet:
  "h ctx r w = (out, w1) \<Longrightarrow> \<exists>out' w2. LoggingMiddleware rs h ctx r w = (out', w2) \<and> quiet w1 w2"
  by (cases out rule: outcome.exhaust)
    (auto simp: LoggingMiddleware_def Let_def split: option.split)

lemma Recovery_quiet:
  "h ctx r w = (out, w1) \<Longrightarrow> \<exists>out' w2. RecoveryMiddleware h ctx r w = (out', w2) \<and> quiet w1 w2"
  by (cases out rule: outcome.exhaust) (auto simp: RecoveryMiddleware_def)

lemma quiet_breaker [simp, intro]:
  "quiet w (snd (breaker_Allow b c w))" "quiet w (breaker_RecordSuccess b c w)"
  "quiet w (breaker_RecordFailure b c w)"
  by (simp_all add: quiet_def same_ids_def)

context broker_contract
begin

lemma quiet_step: "quiet w w' \<Longrightarrow> invar w \<Longrightarrow> invar w' \<and> same_ids w w' \<and> where_is w' = where_is w"
  using where_is_cong [of w' w] by (simp add: quiet_def)

lemma safe_after:
  assumes "safe_handler invar where_is h" "invar w" "r < next_ref w" "quiet w w1"
    and "h ctx r w1 = (out, w2)" "quiet w2 w3"
  shows "invar w3 \<and> same_ids w w3 \<and> places_le (where_is w) (where_is w3)"
proof -
  have w1: "invar w1" "same_ids w w1" "where_is w1 = where_is w"
    using quiet_step [OF assms(4,2)] by auto
  then have "r < next_ref w1" using assms(3) same_ids_valid by blast
  from safe_handlerD [OF assms(1) w1(1) this assms(5)]
  have w2: "invar w2" "same_ids w1 w2" "places_le (where_is w1) (where_is w2)" by auto
  have w3: "invar w3" "same_ids w2 w3" "where_is w3 = where_is w2"
    using quiet_step [OF assms(6) w2(1)] by auto
  from same_ids_trans [OF same_ids_trans [OF w1(2) w2(2)] w3(2)] w3 w2(3) w1(3)
  show ?thesis by simp
qed

lemma safe_Logging:
  assumes "safe_handler invar where_is h" shows "safe_handler invar where_is (LoggingMiddleware rs h)"
  unfolding safe_handler_def
proof (intro allI impI)
  fix ctx r w out w' assume *: "invar w" "r < next_ref w" "LoggingMiddleware rs h ctx r w = (out, w')"
  obtain out1 w1 where run: "h ctx r w = (out1, w1)" by (cases "h ctx r w")
  then have "quiet w1 w'" using Logging_quiet [of h ctx r w out1 w1 rs] *(3) by auto
  with safe_after [OF assms *(1,2) quiet_refl run] show
    "invar w' \<and> same_ids w w' \<and> places_le (where_is w) (where_is w')" by blast
qed

lemma safe_Recovery:
  assumes "safe_handler invar where_is h" shows "safe_handler invar where_is (RecoveryMiddleware h)"
  unfolding safe_handler_def
proof (intro allI impI)
  fix ctx r w out w' assume *: "invar w" "r < next_ref w" "RecoveryMiddleware h ctx r w = (out, w')"
  obtain out1 w1 where run: "h ctx r w = (out1, w1)" by (cases "h ctx r w")
  then have "quiet w1 w'" using Recovery_quiet [of h ctx r w out1 w1] *(3) by auto
  with safe_after [OF assms *(1,2) quiet_refl run] show
    "invar w' \<and> same_ids w w' \<and> places_le (where_is w) (where_is w')" by blast
qed

lemma safe_Breaker:
  assumes "safe_handler invar where_is h" shows "safe_handler invar where_is (BreakerMiddleware b h)"
proof (cases b)
  case None then show ?thesis using assms by (simp add: BreakerMiddleware_def)
next
  case (Some n)
  show ?thesis unfolding safe_handler_def
  proof (intro allI impI)
    fix ctx r w out w' assume *: "invar w" "r < next_ref w" "BreakerMiddleware b h ctx r w = (out, w')"
    obtain ok w1 where al: "breaker_Allow n (Class (heap w r)) w = (ok, w1)"
      by (cases "breaker_Allow n (Class (heap w r)) w")
    have q1: "quiet w w1" using quiet_breaker(1) [of w n "Class (heap w r)"] al by simp
    obtain out1 w2 where run: "h ctx r w1 = (out1, w2)" by (cases "h ctx r w1")
    have "w' = w1 \<or> quiet w2 w'"
      using *(3) al run Some
      by (auto simp: BreakerMiddleware_def split: if_splits outcome.splits option.splits)
    then show "invar w' \<and> same_ids w w' \<and> places_le (where_is w) (where_is w')"
      using safe_after [OF assms *(1,2) q1 run] quiet_step [OF q1 *(1)] by auto
  qed
qed

lemma safe_builtin:
  "builtin_middleware m \<Longrightarrow> safe_handler invar where_is h \<Longrightarrow> safe_handler invar where_is (m h)"
  unfolding builtin_middleware_def using safe_Logging safe_Recovery safe_Breaker by blast

lemma safe_Wrap:
  assumes "\<forall>m \<in> set (middlewares c). builtin_middleware m" "safe_handler invar where_is h"
  shows "safe_handler invar where_is (Wrap c h)"
proof -
  have "\<forall>m \<in> set ms. builtin_middleware m \<Longrightarrow> safe_handler invar where_is (foldr (\<lambda>m h. m h) ms h)" for ms
    by (induction ms) (auto intro: safe_builtin assms(2))
  with assms(1) show ?thesis by (simp add: Wrap_eq)
qed

lemma safe_execute:
  assumes "safe_perform invar where_is perform"
  shows "safe_handler invar where_is (execute perform p)"
  unfolding safe_handler_def
proof (intro allI impI)
  fix ctx r w out w' assume *: "invar w" "execute perform p ctx r w = (out, w')"
  have "w' = w \<or> (\<exists>wk args. perform wk ctx args w = (out, w'))"
    using *(2) by (auto simp: execute_def Let_def split: option.splits prod.splits)
  then show "invar w' \<and> same_ids w w' \<and> places_le (where_is w) (where_is w')"
    using assms *(1) unfolding safe_perform_def by auto
qed

lemma safe_run_handler:
  "safe_perform invar where_is perform \<Longrightarrow> \<forall>m \<in> set (middlewares (p_handler p)). builtin_middleware m \<Longrightarrow>
     safe_handler invar where_is (run_handler perform p)"
  unfolding run_handler_def by (intro safe_Wrap safe_execute)

lemma ack_step:
  assumes "invar w" "r < next_ref w"
  shows "invar (log_err l m k (bk_Ack B r w)) \<and> same_ids w (log_err l m k (bk_Ack B r w)) \<and>
    unlease_le (JID (heap w r)) (where_is w) (where_is (log_err l m k (bk_Ack B r w)))"
proof -
  obtain e w1 where a: "bk_Ack B r w = (e, w1)" by (cases "bk_Ack B r w")
  note law = ack_law [OF assms a]
  have "quiet w1 (log_err l m k (bk_Ack B r w))" using quiet_log_err [of "bk_Ack B r w"] a by simp
  from quiet_step [OF this] law a show ?thesis by (auto intro: same_ids_trans)
qed

lemma record_step:
  assumes "invar w" "r < next_ref w" and "f = bk_RecordSuccess B \<or> f = bk_RecordFailure B"
  shows "invar (log_err l m k (f r w)) \<and> same_ids w (log_err l m k (f r w)) \<and>
    where_is (log_err l m k (f r w)) = where_is w"
proof -
  obtain e w1 where a: "f r w = (e, w1)" by (cases "f r w")
  have law: "invar w1 \<and> same_ids w w1 \<and> where_is w1 = where_is w"
    using record_law [OF assms(1,2), of e w1] assms(3) a by auto
  have "quiet w1 (log_err l m k (f r w))" using quiet_log_err [of "f r w"] a by simp
  from quiet_step [OF this] law show ?thesis by (auto intro: same_ids_trans)
qed

lemma quiet_then_record:
  assumes "invar w" "r < next_ref w" "quiet w w1" and "f = bk_RecordSuccess B \<or> f = bk_RecordFailure B"
    and w2: "w2 = log_err l m k (f r w1)"
  shows "invar w2" "same_ids w w2" "where_is w2 = where_is w" "r < next_ref w2"
    "JID (heap w2 r) = JID (heap w r)"
proof -
  have w1: "invar w1 \<and> same_ids w w1 \<and> where_is w1 = where_is w" "r < next_ref w1"
    using quiet_step [OF assms(3,1)] assms(2,3) by (auto simp: quiet_def)
  have "invar w2 \<and> same_ids w1 w2 \<and> where_is w2 = where_is w1"
    unfolding w2 by (rule record_step) (use w1 assms(4) in auto)
  with w1 show "invar w2" "same_ids w w2" "where_is w2 = where_is w"
    by (auto intro: same_ids_trans)
  with assms(2) show "r < next_ref w2" "JID (heap w2 r) = JID (heap w r)"
    by (auto simp: same_ids_valid same_ids_JID)
qed

end

context reliable_broker
begin

lemma add_retry_step:
  assumes "invar w" "r < next_ref w"
  shows "invar (log_err l m k (bk_AddToRetry B r t w)) \<and> same_ids w (log_err l m k (bk_AddToRetry B r t w)) \<and>
    places_le (where_is w) (where_is (log_err l m k (bk_AddToRetry B r t w))) \<and>
    JID (heap w r) \<in> retrying (where_is (log_err l m k (bk_AddToRetry B r t w)))"
proof -
  obtain w1 where a: "bk_AddToRetry B r t w = (None, w1)"
    using add_retry_succeeds [of r t w] by (cases "bk_AddToRetry B r t w") simp
  from add_retry_law [OF assms a] a show ?thesis
    by (auto simp: log_err_def places_le_def)
qed

lemma add_dead_step:
  assumes "invar w" "r < next_ref w"
  shows "invar (log_err l m k (bk_AddToDead B r w)) \<and> same_ids w (log_err l m k (bk_AddToDead B r w)) \<and>
    places_le (where_is w) (where_is (log_err l m k (bk_AddToDead B r w))) \<and>
    JID (heap w r) \<in> buried (where_is (log_err l m k (bk_AddToDead B r w)))"
proof -
  obtain w1 where a: "bk_AddToDead B r w = (None, w1)"
    using add_dead_succeeds [of r w] by (cases "bk_AddToDead B r w") simp
  from add_dead_law [OF assms a] a show ?thesis
    by (auto simp: log_err_def places_le_def)
qed

lemma unlease_keeps: "unlease_le jid p q \<Longrightarrow> x \<in> retrying p \<union> buried p \<Longrightarrow> x \<in> retrying q \<union> buried q"
  by (auto simp: unlease_le_def places_le_def)

text \<open>
  Recording an outcome in a terminal place and then acknowledging: the shape of all three
  branches of \<open>handleFailure\<close>.
\<close>

lemma place_then_ack:
  assumes "invar w" "r < next_ref w" "quiet w w1"
    and "w2 = log_err l m k (bk_AddToRetry B r t w1) \<or> w2 = log_err l m k (bk_AddToDead B r w1)"
    and "w3 = log_err l' m' k' (bk_Ack B r w2)"
  shows "invar w3 \<and> same_ids w w3 \<and> unlease_le (JID (heap w r)) (where_is w) (where_is w3) \<and>
    JID (heap w r) \<in> retrying (where_is w3) \<union> buried (where_is w3)"
proof -
  have w1: "invar w1" "same_ids w w1" "where_is w1 = where_is w" "r < next_ref w1"
    "JID (heap w1 r) = JID (heap w r)"
    using quiet_step [OF assms(3,1)] assms(2,3) by (auto simp: quiet_JID quiet_def)
  have w2: "invar w2 \<and> same_ids w1 w2 \<and> places_le (where_is w1) (where_is w2) \<and>
      JID (heap w r) \<in> retrying (where_is w2) \<union> buried (where_is w2)"
    using assms(4) add_retry_step [OF w1(1,4), of l m k t] add_dead_step [OF w1(1,4), of l m k] w1(5)
    by auto
  then have w2': "r < next_ref w2" "JID (heap w2 r) = JID (heap w r)"
    using w1 same_ids_valid same_ids_JID by metis+
  have w3: "invar w3 \<and> same_ids w2 w3 \<and> unlease_le (JID (heap w r)) (where_is w2) (where_is w3)"
    using ack_step [of w2 r l' m' k'] w2 w2' assms(5) by simp
  then show ?thesis
    using w1 w2 unlease_keeps unlease_le_trans1 [of "where_is w" "where_is w2"]
    by (metis same_ids_trans)
qed

lemma handleFailure_keeps:
  assumes "invar w" "r < next_ref w" and "w' = handleFailure B p r e w"
  shows "invar w' \<and> same_ids w w' \<and> unlease_le (JID (heap w r)) (where_is w) (where_is w') \<and>
    JID (heap w r) \<in> retrying (where_is w') \<union> buried (where_is w')"
  by (rule handleFailure_shape [of w B r p e]) (use assms place_then_ack in metis)

lemma finishJob_keeps:
  assumes "invar w" "r < next_ref w" and w': "w' = finishJob B p r q d err w"
  shows "invar w' \<and> same_ids w w' \<and> unlease_le (JID (heap w r)) (where_is w) (where_is w') \<and>
    (err \<noteq> None \<longrightarrow> JID (heap w r) \<in> retrying (where_is w') \<union> buried (where_is w'))"
proof (cases err)
  case None
  obtain w1 l m k l' m' k' where sh: "quiet w w1"
    "w' = log_err l' m' k' (bk_Ack B r (log_err l m k (bk_RecordSuccess B r w1)))"
    unfolding w' None by (rule finishJob_success_shape)
  note rec = quiet_then_record [OF assms(1,2) sh(1) disjI1 [OF refl] refl, of l m k]
  from ack_step [OF rec(1,4), of l' m' k'] rec sh(2) None show ?thesis
    by (auto intro: same_ids_trans)
next
  case (Some e)
  obtain w1 l m k where sh: "quiet w w1"
    "w' = handleFailure B p r e (log_err l m k (bk_RecordFailure B r w1))"
    unfolding w' Some by (rule finishJob_failure_shape)
  note rec = quiet_then_record [OF assms(1,2) sh(1) disjI2 [OF refl] refl, of l m k]
  from handleFailure_keeps [OF rec(1,4) sh(2)] rec show ?thesis
    by (auto intro: same_ids_trans)
qed

lemma processJob_keeps:
  assumes "invar w" "r < next_ref w"
    and h: "safe_handler invar where_is (run_handler perform p)"
    and start: "startJob p r q w = (start, ctx, w1)"
    and run: "run_handler perform p ctx r w1 = (Returned err, w2)"
    and w': "processJob B perform p r q w = Some w'"
  shows "invar w' \<and> same_ids w w' \<and> unlease_le (JID (heap w r)) (where_is w) (where_is w') \<and>
    (err = None \<or> JID (heap w r) \<in> retrying (where_is w') \<union> buried (where_is w'))"
proof -
  let ?w3 = "snd (time_Now w2)"
  have w'_eq: "w' = finishJob B p r q (clock w2 0 - start) err ?w3"
    using w' processJob_eq [OF start run, of B] by simp
  from quiet_step [OF startJob_quiet(1) [OF start] assms(1)]
  have w1: "invar w1" "same_ids w w1" "where_is w1 = where_is w" by auto
  have "r < next_ref w1" using w1(2) assms(2) by (rule same_ids_valid)
  from safe_handlerD [OF h w1(1) this run]
  have w2: "invar w2" "same_ids w1 w2" "places_le (where_is w1) (where_is w2)" by auto
  have w3: "invar ?w3" "same_ids w2 ?w3" "where_is ?w3 = where_is w2"
    using quiet_step [OF quiet_time_Now w2(1)] by auto
  have ids: "same_ids w ?w3"
    using same_ids_trans [OF same_ids_trans [OF w1(2) w2(2)] w3(2)] .
  then have r3: "r < next_ref ?w3" "JID (heap ?w3 r) = JID (heap w r)"
    using assms(2) same_ids_valid same_ids_JID by blast+
  from finishJob_keeps [OF w3(1) r3(1) w'_eq] w1(3) w2(3) w3(3) r3(2) ids show ?thesis
    using same_ids_trans [of w ?w3 w'] unlease_le_trans1 [of "where_is w1" "where_is w2"]
    by (cases err) auto
qed

lemma retry_again_keeps:
  assumes "invar w" "r < next_ref w" and w': "w' = retry_again B r err w"
  shows "invar w' \<and> same_ids w w' \<and> places_le (where_is w) (where_is w') \<and>
    JID (heap w r) \<in> held (where_is w')"
proof -
  obtain w1 l m k t where q: "quiet w w1"
    and w'_eq: "w' = log_err l m k (bk_AddToDead B r w1) \<or> w' = log_err l m k (bk_AddToRetry B r t w1)"
    unfolding w' by (rule retry_again_shape)
  have w1: "invar w1" "same_ids w w1" "where_is w1 = where_is w" "r < next_ref w1"
      "JID (heap w1 r) = JID (heap w r)"
    using quiet_step [OF q assms(1)] q assms(2) by (auto simp: quiet_JID quiet_def)
  show ?thesis
    using w'_eq add_dead_step [OF w1(1,4), of l m k] add_retry_step [OF w1(1,4), of l m k t] w1
      same_ids_trans [OF w1(2)]
    by (auto simp: held_def)
qed

lemma retry_one_keeps:
  assumes "invar w" "r < next_ref w" and w': "w' = retry_one B p r w"
  shows "invar w' \<and> same_ids w w' \<and> held (where_is w) \<subseteq> held (where_is w')"
proof (cases "Queue (heap w r) \<in> set (p_queueSet p)")
  case False
  then have "quiet w w'" unfolding w' retry_one_def by simp
  from quiet_step [OF this assms(1)] show ?thesis by simp
next
  case known: True
  obtain e w1 where rem: "bk_RemoveFromRetry B r w = (e, w1)" by (cases "bk_RemoveFromRetry B r w")
  from remove_retry_law [OF assms(1,2) rem]
  have w1: "invar w1" "same_ids w w1"
    and le: "places_le ((where_is w)\<lparr>retrying := retrying (where_is w) - {JID (heap w r)}\<rparr>) (where_is w1)"
    by auto
  show ?thesis
  proof (cases e)
    case (Some err)
    then have "quiet w1 w'" unfolding w' retry_one_def using known rem by simp
    from quiet_step [OF this w1(1)] w1 remove_retry_clean [OF assms(1,2) rem [unfolded Some]] show ?thesis
      using same_ids_trans [of w w1 w'] by (simp add: places_le_held)
  next
    case None
    let ?w2 = "upd_job r (\<lambda>j. j\<lparr>State := JobStatePending\<rparr>) w1"
    have w2: "invar ?w2" "same_ids w ?w2" "where_is ?w2 = where_is w1"
      using quiet_step [OF quiet_set_State w1(1)] same_ids_trans [OF w1(2)] by blast+
    then have r2: "r < next_ref ?w2" "JID (heap ?w2 r) = JID (heap w r)"
      using assms(2) same_ids_valid same_ids_JID by blast+
    obtain e2 w3 where enq: "bk_Enqueue B ProcCtx (Queue (heap ?w2 r)) r ?w2 = (e2, w3)"
      by (cases "bk_Enqueue B ProcCtx (Queue (heap ?w2 r)) r ?w2")
    note law = enqueue_law [OF w2(1) r2(1) enq]
    have ids3: "same_ids w w3" using law w2(2) same_ids_trans by blast
    have bck: "held (where_is w) \<subseteq> insert (JID (heap w r)) (held (where_is w1))"
      using le None by (auto simp: places_le_def held_def)
    show ?thesis
    proof (cases e2)
      case none2: None
      have "w' = w3" unfolding w' retry_one_def using known rem None enq none2 by (simp add: Let_def)
      with law none2 ids3 bck w2(3) r2(2) show ?thesis by (auto simp: held_def)
    next
      case (Some err)
      have w3: "invar w3" "r < next_ref w3" "JID (heap w3 r) = JID (heap w r)"
        using law ids3 assms(2) same_ids_valid same_ids_JID by blast+
      have up: "held (where_is w1) \<subseteq> held (where_is w3)" using law w2(3) by (auto simp: held_def)
      have w'_eq: "w' = retry_again B r err w3"
        unfolding w' retry_one_def using known rem None enq Some by (simp add: Let_def)
      from retry_again_keeps [OF w3(1,2) w'_eq] w3(3) bck up ids3 show ?thesis
        using same_ids_trans [of w w3 w'] places_le_held [of "where_is w3" "where_is w'"] by auto
    qed
  qed
qed

lemma retry_fold_keeps:
  assumes "invar w" "\<forall>r \<in> set rs. r < next_ref w" and "w' = fold (retry_one B p) rs w"
  shows "invar w' \<and> same_ids w w' \<and> held (where_is w) \<subseteq> held (where_is w')"
  using assms
proof (induction rs arbitrary: w)
  case (Cons r rs)
  let ?w1 = "retry_one B p r w"
  have step: "invar ?w1 \<and> same_ids w ?w1 \<and> held (where_is w) \<subseteq> held (where_is ?w1)"
    by (rule retry_one_keeps) (use Cons.prems in auto)
  then have "invar w' \<and> same_ids ?w1 w' \<and> held (where_is ?w1) \<subseteq> held (where_is w')"
    using Cons.prems by (intro Cons.IH) (auto intro: same_ids_valid)
  with step show ?case using same_ids_trans [of w ?w1 w'] by blast
qed simp

lemma retry_tick_keeps:
  assumes "invar w" and w': "w' = retry_tick B p w"
  shows "invar w' \<and> same_ids w w' \<and> held (where_is w) \<subseteq> held (where_is w')"
proof -
  obtain x w1 where g: "bk_GetRetryJobs B 100 w = (x, w1)" by (cases "bk_GetRetryJobs B 100 w")
  note law = get_retry_law [OF assms(1) g]
  show ?thesis
  proof (cases x)
    case (Inl e)
    then have "quiet w1 w'" unfolding w' retry_tick_def using g by simp
    from quiet_step [OF this] law show ?thesis using same_ids_trans [of w w1 w'] by auto
  next
    case (Inr rs)
    then have "w' = fold (retry_one B p) rs w1" unfolding w' retry_tick_def using g by simp
    with retry_fold_keeps [of w1 rs w' p] law Inr show ?thesis
      using same_ids_trans [of w w1 w'] by auto
  qed
qed

end

text \<open>
  The reaper. A reaped job of a queue the processor does not serve is dropped; every other
  job stays held as long as the broker accepts jobs.
\<close>

lemma reap_one_shape:
  assumes "Queue (heap w r) \<in> set (p_queueSet p)"
  obtains l m k l' m' k' where "reap_one B p r w =
    log_err l m k (bk_Enqueue B ProcCtx (Queue (heap w r)) r (log_line l' m' k' w))" and "loss_line (JID (heap w r)) m k"
  by (rule that) (simp only: reap_one_def assms not_True_eq_False if_False Let_def log_line_sel,
    simp add: loss_line_def loss_messages_def)

context broker_contract
begin

lemma reap_one_places:
  assumes "invar w" "r < next_ref w" and w': "w' = reap_one B p r w"
  shows "invar w' \<and> same_ids w w' \<and> (where_is w' = where_is w \<or>
    Queue (heap w r) \<in> set (p_queueSet p) \<and> where_is w' = put_pending (JID (heap w r)) (where_is w))"
proof (cases "Queue (heap w r) \<in> set (p_queueSet p)")
  case False
  then have "quiet w w'" by (simp add: w' reap_one_def)
  from quiet_step [OF this assms(1)] show ?thesis by simp
next
  case True
  obtain l m k l' m' k' where eq: "w' = log_err l m k (bk_Enqueue B ProcCtx (Queue (heap w r)) r (log_line l' m' k' w))"
    unfolding w' by (rule reap_one_shape [OF True])
  let ?w1 = "log_line l' m' k' w"
  have w1: "invar ?w1" "same_ids w ?w1" "where_is ?w1 = where_is w"
    using quiet_step [OF quiet_log_line assms(1)] by blast+
  obtain e w2 where enq: "bk_Enqueue B ProcCtx (Queue (heap w r)) r ?w1 = (e, w2)"
    by (cases "bk_Enqueue B ProcCtx (Queue (heap w r)) r ?w1")
  have "r < next_ref ?w1" using assms(2) by simp
  note law = enqueue_law [OF w1(1) this enq]
  have "quiet w2 w'" using quiet_log_err [of "(e, w2)" l m k] eq enq by simp
  then have "invar w' \<and> same_ids w2 w' \<and> where_is w' = where_is w2" using quiet_step law by blast
  with law w1 True same_ids_trans [OF w1(2)] same_ids_trans [of w w2 w'] show ?thesis by auto
qed

lemma reap_fold_drops:
  assumes "invar w" "\<forall>r \<in> set rs. r < next_ref w" "jid \<notin> held (where_is w)"
    and "\<forall>r \<in> set rs. JID (heap w r) = jid \<longrightarrow> Queue (heap w r) \<notin> set (p_queueSet p)"
  shows "jid \<notin> held (where_is (fold (reap_one B p) rs w))"
  using assms
proof (induction rs arbitrary: w)
  case (Cons r rs)
  let ?w1 = "reap_one B p r w"
  have "r < next_ref w" using Cons.prems(2) by simp
  note one = reap_one_places [OF Cons.prems(1) this refl, of p]
  have "\<forall>x \<in> set rs. x < next_ref ?w1 \<and> JID (heap ?w1 x) = JID (heap w x) \<and> Queue (heap ?w1 x) = Queue (heap w x)"
    using one Cons.prems(2) by (auto simp: same_ids_valid same_ids_JID same_ids_Queue)
  moreover have "jid \<notin> held (where_is ?w1)" using one Cons.prems(3,4) by (auto simp: held_def)
  ultimately show ?case using Cons.IH [of ?w1] one Cons.prems(4) by simp
qed simp

end

context accepting_broker
begin

lemma reap_one_keeps:
  assumes "invar w" "accepts w" "r < next_ref w" and w': "w' = reap_one B p r w"
  shows "invar w' \<and> accepts w' \<and> same_ids w w' \<and> places_le (where_is w) (where_is w') \<and>
    (Queue (heap w r) \<in> set (p_queueSet p) \<longrightarrow> JID (heap w r) \<in> pending (where_is w'))"
proof (cases "Queue (heap w r) \<in> set (p_queueSet p)")
  case False
  have "quiet w w'" "accepts w'" unfolding w' reap_one_def using False accepts_log [OF assms(2)] by simp_all
  then show ?thesis using quiet_step [of w w'] assms(1) False by simp
next
  case True
  obtain l m k l' m' k' where eq: "w' = log_err l m k (bk_Enqueue B ProcCtx (Queue (heap w r)) r (log_line l' m' k' w))"
    unfolding w' by (rule reap_one_shape [OF True])
  let ?w1 = "log_line l' m' k' w"
  have w1: "invar ?w1" "same_ids w ?w1" "where_is ?w1 = where_is w"
    using quiet_step [OF quiet_log_line assms(1)] by blast+
  obtain e w2 where enq: "bk_Enqueue B ProcCtx (Queue (heap w r)) r ?w1 = (e, w2)"
    by (cases "bk_Enqueue B ProcCtx (Queue (heap w r)) r ?w1")
  have acc: "e = None" "accepts w2" using accepts_enqueue [OF accepts_log [OF assms(2)] enq] by auto
  have "r < next_ref ?w1" using assms(3) by simp
  from enqueue_law [OF w1(1) this enq] acc(1) w1 acc(2) eq enq same_ids_trans [OF w1(2), of w2]
  show ?thesis by (auto simp: log_err_None places_le_def)
qed

lemma reap_fold_keeps:
  assumes "invar w" "accepts w" "\<forall>r \<in> set rs. r < next_ref w" and "w' = fold (reap_one B p) rs w"
  shows "invar w' \<and> accepts w' \<and> same_ids w w' \<and> places_le (where_is w) (where_is w') \<and>
    (\<forall>r \<in> set rs. Queue (heap w r) \<in> set (p_queueSet p) \<longrightarrow> JID (heap w r) \<in> pending (where_is w'))"
  using assms
proof (induction rs arbitrary: w)
  case (Cons r rs)
  let ?w1 = "reap_one B p r w"
  have step: "invar ?w1 \<and> accepts ?w1 \<and> same_ids w ?w1 \<and> places_le (where_is w) (where_is ?w1) \<and>
      (Queue (heap w r) \<in> set (p_queueSet p) \<longrightarrow> JID (heap w r) \<in> pending (where_is ?w1))"
    by (rule reap_one_keeps) (use Cons.prems in auto)
  then have rest: "invar w' \<and> accepts w' \<and> same_ids ?w1 w' \<and> places_le (where_is ?w1) (where_is w') \<and>
      (\<forall>r \<in> set rs. Queue (heap ?w1 r) \<in> set (p_queueSet p) \<longrightarrow> JID (heap ?w1 r) \<in> pending (where_is w'))"
    using Cons.prems by (intro Cons.IH) (auto intro: same_ids_valid)
  have ids: "JID (heap ?w1 x) = JID (heap w x)" "Queue (heap ?w1 x) = Queue (heap w x)"
    if "x \<in> set rs" for x
    using step Cons.prems(3) that by (auto simp: same_ids_JID same_ids_Queue)
  have up: "pending (where_is ?w1) \<subseteq> pending (where_is w')" using rest by (simp add: places_le_def)
  show ?case
    using step rest same_ids_trans [of w ?w1 w'] places_le_trans [of "where_is w" "where_is ?w1"] ids up
    by auto
qed simp

lemma reaper_tick_keeps:
  assumes "invar w" "accepts w" and w': "w' = reaper_tick B p w"
  shows "invar w' \<and> accepts w' \<and> same_ids w w' \<and>
    (\<forall>jid \<in> held (where_is w). jid \<in> held (where_is w') \<or>
      (\<exists>r < next_ref w'. JID (heap w' r) = jid \<and> Queue (heap w' r) \<notin> set (p_queueSet p)))"
proof -
  obtain x w1 where g: "bk_ReapOrphanedJobs B 0 w = (x, w1)" by (cases "bk_ReapOrphanedJobs B 0 w")
  note law = reap_law [OF assms(1) g] and acc = accepts_reap [OF assms(2) g]
  show ?thesis
  proof (cases x)
    case (Inl e)
    then have "w' = log_line Warn ''reaper failed'' [(''err'', LErr e)] w1"
      unfolding w' reaper_tick_def using g by simp
    then have "quiet w1 w'" "accepts w'" using accepts_log [OF acc] by simp_all
    from quiet_step [OF this(1)] law this(2) reap_clean [OF assms(1) g [unfolded Inl]] show ?thesis
      using same_ids_trans [of w w1 w'] places_le_held [of "where_is w" "where_is w1"] by auto
  next
    case (Inr rs)
    have eq: "w' = fold (reap_one B p) rs w1" unfolding w' reaper_tick_def using g Inr by simp
    from law Inr have l: "invar w1" "same_ids w w1" "\<forall>r \<in> set rs. r < next_ref w1"
      and le: "places_le ((where_is w)\<lparr>leased := leased (where_is w) - JID ` heap w1 ` set rs\<rparr>) (where_is w1)"
      by auto
    note fld = reap_fold_keeps [OF l(1) acc l(3) eq]
    then have ids: "JID (heap w' x) = JID (heap w1 x)" "Queue (heap w' x) = Queue (heap w1 x)" "x < next_ref w'"
      if "x \<in> set rs" for x
      using l(3) that by (auto simp: same_ids_JID same_ids_Queue intro: same_ids_valid)
    have "jid \<in> held (where_is w') \<or>
      (\<exists>r < next_ref w'. JID (heap w' r) = jid \<and> Queue (heap w' r) \<notin> set (p_queueSet p))"
      if "jid \<in> held (where_is w)" for jid
    proof (cases "jid \<in> JID ` heap w1 ` set rs")
      case True
      then obtain r where r: "r \<in> set rs" "jid = JID (heap w1 r)" by blast
      show ?thesis
      proof (cases "Queue (heap w1 r) \<in> set (p_queueSet p)")
        case True
        with fld r have "jid \<in> pending (where_is w')" by blast
        then show ?thesis by (simp add: held_def)
      next
        case False
        with ids [OF r(1)] r(2) show ?thesis by metis
      qed
    next
      case False
      then have "jid \<in> held (where_is w1)" using that le by (auto simp: held_def places_le_def)
      then show ?thesis using fld places_le_held by blast
    qed
    with fld l same_ids_trans [of w w1 w'] show ?thesis by blast
  qed
qed

end

section \<open>The concrete instance\<close>

lemma demo_processor_handler:
  "middlewares (p_handler demo_processor) = [RecoveryMiddleware, LoggingMiddleware []]"
  "p_events demo_processor = Some 10" "p_queueSet demo_processor = [''default'']"
  "p_queues demo_processor = [''default'']"
  "p_validator demo_processor = None" "p_registry demo_processor = Some (\<lambda>_ _. (Some 0, None))"
  by (simp_all add: demo_processor_def NewProcessor_def NewChain_def Let_def weighted_queues_def demo_config_def)

lemma demo_leased_inv: "mem_invar demo_leased" "mem_accepts demo_leased" "next_ref demo_leased = 2"
  "heap demo_leased 0 = demo_job ''a''"
  by (auto simp: demo_leased_def mem_invar_def mem_accepts_def mem_refs_def queued_refs_def queue_of_def
      NewInMemoryBroker_def)

lemma demo_run:
  "startJob demo_processor 0 ''default'' demo_leased = (start, ctx, w1) \<Longrightarrow>
   \<exists>w2. run_handler fails demo_processor ctx 0 w1 = (Returned (Some BrokerClosed), w2) \<and>
     heap w2 0 = (demo_job ''a'')\<lparr>State := JobStateActive\<rparr> \<and> length (events w2) = 1"
  by (auto simp: startJob_def run_handler_def Wrap_eq demo_processor_handler RecoveryMiddleware_def
      LoggingMiddleware_def execute_def Let_def case_prod_beta GetDefaultValidator_def emitEvent_events
      push_event_def demo_leased_def emitEvent_def time_Now_def)

section \<open>Panics\<close>
lemma never_panicsD: "never_panics h \<Longrightarrow> \<exists>e w'. h ctx r w = (Returned e, w')"
  unfolding never_panics_def by (metis outcome.exhaust prod.collapse)

lemma never_panics_Recovery: "never_panics (RecoveryMiddleware h)"
  unfolding never_panics_def using Recovery_returns [of h] by (metis fst_conv outcome.distinct(1))

lemma never_panics_Logging: "never_panics h \<Longrightarrow> never_panics (LoggingMiddleware rs h)"
  unfolding never_panics_def LoggingMiddleware_def
  by (auto simp: Let_def split: prod.split outcome.split option.split) (metis fst_conv)

lemma never_panics_Breaker: "never_panics h \<Longrightarrow> never_panics (BreakerMiddleware b h)"
  unfolding never_panics_def BreakerMiddleware_def
  by (auto simp: Let_def split: prod.split outcome.split option.split) (metis fst_conv)

lemma never_panics_builtin: "builtin_middleware m \<Longrightarrow> never_panics h \<Longrightarrow> never_panics (m h)"
  unfolding builtin_middleware_def
  using never_panics_Logging never_panics_Breaker never_panics_Recovery by blast

lemma never_panics_Wrap:
  assumes "\<forall>m \<in> set (middlewares c). builtin_middleware m" "RecoveryMiddleware \<in> set (middlewares c)"
  shows "never_panics (Wrap c h)"
proof -
  have "\<forall>m \<in> set ms. builtin_middleware m \<Longrightarrow> RecoveryMiddleware \<in> set ms \<Longrightarrow>
      never_panics (foldr (\<lambda>m h. m h) ms h)" for ms
    by (induction ms) (auto intro: never_panics_builtin never_panics_Recovery)
  with assms show ?thesis by (simp add: Wrap_eq)
qed

lemma processJob_returns:
  assumes "\<forall>m \<in> set (middlewares (p_handler p)). builtin_middleware m"
    "RecoveryMiddleware \<in> set (middlewares (p_handler p))"
    "startJob p r q w = (start, ctx, w1)"
  obtains err w2 w' where "run_handler perform p ctx r w1 = (Returned err, w2)"
    "processJob B perform p r q w = Some w'"
proof -
  have "never_panics (run_handler perform p)"
    unfolding run_handler_def using assms(1,2) by (rule never_panics_Wrap)
  then obtain err w2 where run: "run_handler perform p ctx r w1 = (Returned err, w2)"
    using never_panicsD by blast
  from that [OF this] processJob_eq [OF assms(3) this, of B] show thesis by blast
qed

text \<open>
  C3: no job is lost by running it. With a chain of the built-in middlewares that contains
  the recovery middleware, and workers that take no job out of the broker, \<open>processJob\<close> always
  returns, even when the worker panics; afterwards the broker holds every job it held before, but for
  the lease of this job, and if the run did not succeed the job waits for a retry or is dead.
\<close>

theorem processJob_no_loss:
  assumes "mem_invar w" "r < next_ref w" "safe_perform mem_invar mem_places perform"
    and "\<forall>m \<in> set (middlewares (p_handler p)). builtin_middleware m"
    and "RecoveryMiddleware \<in> set (middlewares (p_handler p))"
  shows "\<exists>start ctx w1 err w2 w'. startJob p r q w = (start, ctx, w1) \<and>
    run_handler perform p ctx r w1 = (Returned err, w2) \<and>
    processJob memB perform p r q w = Some w' \<and> mem_invar w' \<and> same_ids w w' \<and>
    unlease_le (JID (heap w r)) (mem_places w) (mem_places w') \<and>
    (err = None \<or> JID (heap w r) \<in> retrying (mem_places w') \<union> buried (mem_places w'))"
proof -
  obtain start ctx w1 where start: "startJob p r q w = (start, ctx, w1)" by (cases "startJob p r q w")
  obtain err w2 w' where run: "run_handler perform p ctx r w1 = (Returned err, w2)"
    and w': "processJob memB perform p r q w = Some w'"
    using assms(4,5) start by (rule processJob_returns)
  have "safe_handler mem_invar mem_places (run_handler perform p)"
    using assms(3,4) by (rule mem.safe_run_handler)
  from mem.processJob_keeps [OF assms(1,2) this start run w'] start run w' show ?thesis by blast
qed

theorem processJob_no_loss_witness:
  "\<exists>w'. processJob memB fails demo_processor 0 ''default'' demo_leased = Some w' \<and> mem_invar w' \<and>
    unlease_le ''a'' (mem_places demo_leased) (mem_places w') \<and>
    ''a'' \<in> retrying (mem_places w') \<union> buried (mem_places w')"
proof -
  have safe: "safe_perform mem_invar mem_places fails" by (simp add: safe_perform_def)
  have chain: "\<forall>m \<in> set (middlewares (p_handler demo_processor)). builtin_middleware m"
    "RecoveryMiddleware \<in> set (middlewares (p_handler demo_processor))"
    by (auto simp: demo_processor_handler builtin_middleware_def)
  have "0 < next_ref demo_leased" by (simp add: demo_leased_inv)
  from processJob_no_loss [OF demo_leased_inv(1) this safe chain, of "''default''"]
  show ?thesis using demo_run by (fastforce simp: demo_leased_inv)
qed

text \<open>
  With the default chain no panic of a worker ends the process: \<open>processJob\<close> returns
  for every broker, worker and job.
\<close>

lemma default_chain_no_crash:
  "\<exists>w'. processJob B perform (NewProcessor cfg registry None) r q w = Some w'"
proof -
  let ?p = "NewProcessor cfg registry None"
  have ms: "middlewares (p_handler ?p) = [RecoveryMiddleware, LoggingMiddleware []]"
    by (simp add: NewProcessor_def NewChain_def Let_def)
  obtain start ctx w1 where "startJob ?p r q w = (start, ctx, w1)" by (cases "startJob ?p r q w")
  from processJob_returns [OF _ _ this, of perform B] ms show ?thesis
    by (auto simp: builtin_middleware_def)
qed

text \<open>
  C6: on the in-memory broker a turn of the retry loop loses no job, whether the broker accepts the jobs or
  the processor is being stopped and the jobs it has taken out of the retry set cannot be enqueued.
\<close>

theorem retry_tick_no_loss:
  assumes "mem_invar w"
  shows "mem_invar (retry_tick memB p w) \<and> held (mem_places w) \<subseteq> held (mem_places (retry_tick memB p w))"
  using mem.retry_tick_keeps [OF assms refl, of p] by blast

theorem retry_tick_no_loss_witness:
  "retrying (mem_places demo_retry_stop) = {''a''} \<and> cancelled demo_retry_stop \<and>
   ''a'' \<in> held (mem_places (retry_tick memB demo_processor demo_retry_stop))"
proof -
  have "mem_invar demo_retry_stop"
    by (simp add: demo_retry_stop_def mem_invar_def mem_refs_def queued_refs_def queue_of_def NewInMemoryBroker_def)
  moreover have "retrying (mem_places demo_retry_stop) = {''a''} \<and> cancelled demo_retry_stop"
    by (simp add: demo_retry_stop_def mem_places_def)
  ultimately show ?thesis using retry_tick_no_loss [of demo_retry_stop demo_processor] by (auto simp: held_def)
qed

text \<open>
  C7: on the in-memory broker a turn of the reaper loses no job of a queue the processor serves, as long as
  the broker accepts jobs.
\<close>

theorem reaper_tick_no_loss:
  assumes "mem_invar w" "mem_accepts w" "w' = reaper_tick memB p w" "jid \<in> held (mem_places w)"
  shows "jid \<in> held (mem_places w') \<or>
    (\<exists>r < next_ref w'. JID (heap w' r) = jid \<and> Queue (heap w' r) \<notin> set (p_queueSet p))"
  using mem.reaper_tick_keeps [OF assms(1-3)] assms(4) by blast

lemma demo_orphan_inv: "mem_invar demo_orphan" "''a'' \<in> held (mem_places demo_orphan)" "mem_accepts demo_orphan"
  by (auto simp: demo_orphan_def mem_invar_def mem_refs_def queued_refs_def queue_of_def held_def mem_places_def
      NewInMemoryBroker_def mem_accepts_def)

theorem reaper_tick_no_loss_witness:
  "''a'' \<in> held (mem_places (reaper_tick memB demo_processor demo_orphan)) \<or>
   (\<exists>r < next_ref (reaper_tick memB demo_processor demo_orphan).
      JID (heap (reaper_tick memB demo_processor demo_orphan) r) = ''a'' \<and>
      Queue (heap (reaper_tick memB demo_processor demo_orphan) r) \<notin> {''default''})"
  using reaper_tick_no_loss [OF demo_orphan_inv(1,3) refl demo_orphan_inv(2), of demo_processor]
  by (simp add: demo_processor_handler)

text \<open>
  C27: an orphaned job of a queue the processor does not serve is dropped. Take any job of an in-memory
  broker that is under lease and nowhere else, all leases of it expired and of a queue the processor does not
  serve, whatever other jobs and leases there are: after a turn of the reaper no set of the broker has it.
\<close>

theorem reaper_drops_unknown_queue:
  assumes "mem_invar w" "jid \<in> leased (mem_places w)"
    and "jid \<notin> pending (mem_places w) \<union> retrying (mem_places w) \<union> buried (mem_places w)"
    and orphan: "\<forall>e \<in> set (processing (brk w)). JID (heap w (pe_Job e)) = jid \<longrightarrow>
      LeaseExp e < clock w 0 \<and> Queue (heap w (pe_Job e)) \<notin> set (p_queueSet p)"
  shows "jid \<in> held (mem_places w) \<and> jid \<notin> held (mem_places (reaper_tick memB p w))"
proof -
  let ?gone = "filter (\<lambda>e. LeaseExp e < clock w 0) (processing (brk w))"
  obtain w1 where w1: "mem_ReapOrphanedJobs 0 w = (Inr (map pe_Job ?gone), w1)"
    "processing (brk w1) = filter (\<lambda>e. clock w 0 \<le> LeaseExp e) (processing (brk w))"
    "retry (brk w1) = retry (brk w)" "dead (brk w1) = dead (brk w)" "queues (brk w1) = queues (brk w)"
    using mem_reap_spec [of 0 w] by blast
  from mem_reap_contract [OF assms(1) w1(1)]
  have c: "mem_invar w1" "same_ids w w1" "\<forall>r \<in> pe_Job ` set ?gone. r < next_ref w1" by auto
  have same: "JID (heap w1 r) = JID (heap w r) \<and> Queue (heap w1 r) = Queue (heap w r)" if "r \<in> mem_refs (brk w)" for r
    using that assms(1) c(2) by (auto simp: mem_invar_def same_ids_JID same_ids_Queue)
  have refs: "pe_Job e \<in> mem_refs (brk w)" if "e \<in> set (processing (brk w))" for e
    using that by (auto simp: mem_refs_def)
  have "queued_refs (brk w1) = queued_refs (brk w)" by (simp add: queued_refs_def queue_of_def w1(5))
  then have rest: "pending (mem_places w1) = pending (mem_places w)" "retrying (mem_places w1) = retrying (mem_places w)"
    "buried (mem_places w1) = buried (mem_places w)"
    using same by (auto simp: mem_places_def mem_refs_def w1 image_iff)
  have "jid \<notin> leased (mem_places w1)" using orphan refs same by (force simp: mem_places_def w1(2))
  then have out: "jid \<notin> held (mem_places w1)" using assms(3) rest by (simp add: held_def)
  have "\<forall>r \<in> set (map pe_Job ?gone). JID (heap w1 r) = jid \<longrightarrow> Queue (heap w1 r) \<notin> set (p_queueSet p)"
    using orphan refs same by auto
  from mem.reap_fold_drops [OF c(1) _ out this] c(3) w1(1) assms(2) show ?thesis
    by (simp add: reaper_tick_def memB_def held_def)
qed

theorem reaper_drops_unknown_queue_witness:
  "''a'' \<in> held (mem_places demo_foreign) \<and>
   ''a'' \<notin> held (mem_places (reaper_tick memB demo_processor demo_foreign))"
proof (rule reaper_drops_unknown_queue)
  show "mem_invar demo_foreign"
    by (auto simp: demo_foreign_def mem_invar_def mem_refs_def queued_refs_def queue_of_def NewInMemoryBroker_def)
qed (auto simp: demo_foreign_def demo_processor_handler mem_places_def queued_refs_def queue_of_def
    NewInMemoryBroker_def)

section \<open>Outcome of a run on the in-memory broker\<close>

lemma memB_sel [simp]:
  "bk_AddToRetry memB = mem_AddToRetry" "bk_AddToDead memB = mem_AddToDead" "bk_Ack memB = mem_Ack"
  "bk_RecordSuccess memB = mem_RecordSuccess" "bk_RecordFailure memB = mem_RecordFailure"
  by (simp_all add: memB_def)

lemma own_key [simp]:
  "(pe_Job e \<noteq> r \<longrightarrow> JID (h (pe_Job e)) = JID (h r)) \<longleftrightarrow> JID (h (pe_Job e)) = JID (h r)"
  by auto

lemma finishJob_settles:
  assumes "wf_job (heap w r)"
  shows "brk (finishJob memB p r q d err w) = settle err r (clock w 0) w \<and>
    heap (finishJob memB p r q d err w) = (heap w)(r := settled_job err (heap w r))"
proof (cases err)
  case None
  then show ?thesis
    by (simp add: finishJob_def mem_RecordSuccess_def mem_Ack_def settle_def settled_job_def Let_def fun_upd_def)
next
  case (Some e)
  let ?n = "RetryCount (heap w r)"
  have n: "0 \<le> ?n" "?n \<le> 25" using assms by (auto simp: wf_job_def job_consts)
  then have wrap: "wrap64 (?n + 1) = ?n + 1" by (intro wrap64_id in64_small) auto
  have delay: "backoff_delay (capped_shift (?n + 1)) = 2 ^ nat (?n + 1) * Second"
    using backoff_capped [of "?n + 1"] n by (simp add: job_consts min_def)
  note defs = finishJob_def handleFailure_def mem_RecordFailure_def mem_AddToRetry_def mem_AddToDead_def
    mem_Ack_def settle_def settled_job_def
  consider "errors_Is e ErrCircuitOpen" | "\<not> errors_Is e ErrCircuitOpen" "?n < Retry (heap w r)"
    | "\<not> errors_Is e ErrCircuitOpen" "\<not> ?n < Retry (heap w r)" by blast
  then show ?thesis
    by cases (simp_all add: Some defs Let_def case_prod_beta wrap delay fun_eq_iff)
qed

text \<open>
  C4: what a finished run does to the broker and the job. Success counts and acknowledges;
  an open circuit schedules a retry in five seconds and does not use up an attempt; any other error uses
  an attempt and schedules the retry after the exponential delay or, when the attempts are used up,
  buries the job; in all cases the lease is given up.
\<close>

theorem processJob_settles:
  assumes "startJob p r q w = (start, ctx, w1)" "run_handler perform p ctx r w1 = (Returned err, w2)"
    and "wf_job (heap w2 r)"
  shows "\<exists>w'. processJob memB perform p r q w = Some w' \<and>
    brk w' = settle err r (clock w2 1) w2 \<and> heap w' = (heap w2)(r := settled_job err (heap w2 r))"
proof -
  have "settle err r now (snd (time_Now w2)) = settle err r now w2" for now
    by (simp add: settle_def)
  with processJob_eq [OF assms(1,2), of memB] finishJob_settles [of "snd (time_Now w2)" r] assms(3)
  show ?thesis by simp
qed

theorem processJob_settles_witness:
  "\<exists>w'. processJob memB fails demo_processor 0 ''default'' demo_leased = Some w' \<and>
    RetryCount (heap w' 0) = 1 \<and> State (heap w' 0) = JobStateFailed"
proof -
  obtain start ctx w1 where start: "startJob demo_processor 0 ''default'' demo_leased = (start, ctx, w1)"
    by (cases "startJob demo_processor 0 ''default'' demo_leased")
  from demo_run [OF this] obtain w2 where w2:
    "run_handler fails demo_processor ctx 0 w1 = (Returned (Some BrokerClosed), w2)"
    "heap w2 0 = (demo_job ''a'')\<lparr>State := JobStateActive\<rparr>" by blast
  then have "wf_job (heap w2 0)" by (simp add: wf_job_def job_consts)
  from processJob_settles [OF start w2(1) this] w2(2) show ?thesis
    by (auto simp: settled_job_def errors_Is_unwrapped)
qed

lemma mem_ops_events [simp]:
  "events (snd (mem_AddToRetry r t w)) = events w" "events (snd (mem_AddToDead r w)) = events w"
  "events (snd (mem_Ack r w)) = events w" "events (snd (mem_RecordSuccess r w)) = events w"
  "events (snd (mem_RecordFailure r w)) = events w"
  "heap (snd (mem_RecordFailure r w)) = heap w"
  by (simp_all add: mem_AddToRetry_def mem_AddToDead_def mem_Ack_def mem_RecordSuccess_def mem_RecordFailure_def)

lemma finishJob_events:
  assumes "wf_job (heap w r)"
  shows "events (finishJob memB p r q d err w) =
    fold (push_event (p_events p)) (outcome_events r q d err (heap w r)) (events w)"
proof (cases err)
  case None
  then show ?thesis by (simp add: finishJob_def outcome_events_def Let_def emitEvent_events)
next
  case (Some e)
  let ?n = "RetryCount (heap w r)"
  have "0 \<le> ?n" "?n \<le> 25" using assms by (auto simp: wf_job_def job_consts)
  then have wrap: "wrap64 (?n + 1) = ?n + 1" by (intro wrap64_id in64_small) auto
  consider "errors_Is e ErrCircuitOpen" | "\<not> errors_Is e ErrCircuitOpen" "?n < Retry (heap w r)"
    | "\<not> errors_Is e ErrCircuitOpen" "\<not> ?n < Retry (heap w r)" by blast
  then show ?thesis
    by cases (simp_all add: Some finishJob_def handleFailure_def outcome_events_def Let_def case_prod_beta
        wrap emitEvent_events)
qed

text \<open>
  C25: the metrics events of a run, in order: started, then the outcome, then the retry or
  dead-letter event; an event is dropped only when the channel is full, and the channel never holds
  more than its capacity.
\<close>

theorem processJob_events:
  assumes "startJob p r q w = (start, ctx, w1)" "run_handler perform p ctx r w1 = (Returned err, w2)"
    and "wf_job (heap w2 r)" "p_events p = Some cap" "int (length (events w2)) \<le> cap"
  shows "\<exists>w'. processJob memB perform p r q w = Some w' \<and> int (length (events w')) \<le> cap \<and>
    events w' = fold (push_event (Some cap))
      (outcome_events r q (clock w2 0 - start) err (heap w2 r)) (events w2) \<and>
    events w1 = push_event (Some cap) (mk_event EventJobStarted r q 0 None) (events w)"
proof -
  have "events w1 = push_event (Some cap) (mk_event EventJobStarted r q 0 None) (events w)"
    using assms(1,4) by (auto simp: startJob_def Let_def case_prod_beta emitEvent_events)
  with processJob_eq [OF assms(1,2), of memB] finishJob_events [of "snd (time_Now w2)" r] assms(3-5)
    push_event_bound [OF assms(5)]
  show ?thesis by simp
qed

theorem processJob_events_witness:
  "\<exists>w'. processJob memB fails demo_processor 0 ''default'' demo_leased = Some w' \<and> length (events w') \<le> 10"
proof -
  obtain start ctx w1 where start: "startJob demo_processor 0 ''default'' demo_leased = (start, ctx, w1)"
    by (cases "startJob demo_processor 0 ''default'' demo_leased")
  from demo_run [OF this] obtain w2 where w2:
    "run_handler fails demo_processor ctx 0 w1 = (Returned (Some BrokerClosed), w2)"
    "heap w2 0 = (demo_job ''a'')\<lparr>State := JobStateActive\<rparr>" "length (events w2) = 1" by blast
  then have "wf_job (heap w2 0)" by (simp add: wf_job_def job_consts)
  from processJob_events [OF start w2(1) this, of 10] w2(3) show ?thesis
    by (auto simp: demo_processor_handler)
qed

section \<open>Polling order\<close>


lemma fetch_poll_head:
  assumes "queue_of (brk w) (p_queues p ! c) = r # rs" "\<not> cancelled w"
  shows "\<exists>w1. fetch_poll memB p c w =
      Some (FHolding r (p_queues p ! c) (Suc c mod length (p_queues p)), w1) \<and>
    queue_of (brk w1) = (queue_of (brk w))(p_queues p ! c := rs) \<and> \<not> cancelled w1"
proof -
  let ?q = "p_queues p ! c"
  have "first_job [?q] (brk w) = Some (r, ?q)" using assms(1) by (simp add: first_job_single)
  from mem_poll_hit [of "[?q]" "snd (time_Now w)" "(r, ?q)" "clock w 0 + Second"] this
  have "mem_Dequeue [?q] Second w = Some (Inr (Some (r, ?q)),
     (snd (time_Now (snd (time_Now w))))\<lparr>brk := take_lease (r, ?q) (clock w 1) (brk w)\<rparr>)"
    by (simp add: mem_Dequeue_def case_prod_beta)
  then show ?thesis
    using assms by (auto simp: fetch_poll_def memB_def take_lease_def Let_def)
qed


end
