(* ===== verification/Client.thy ===== *)
theory Client
  imports Memory_Broker
begin

text \<open>
  The client of \<^verbatim>\<open>internal/client/client.go\<close>: enqueueing a job, and the process-wide client.
\<close>

section \<open>Operations\<close>

text \<open>\<open>cl_logger\<close> says whether the client was given a logger.\<close>

record 'b Client =
  cl_broker :: "'b Broker"
  cl_logger :: bool

definition New :: "'b Broker \<Rightarrow> bool \<Rightarrow> 'b Client" where
  "New b logger = \<lparr>cl_broker = b, cl_logger = logger\<rparr>"

text \<open>
  What both enqueue methods do: \<open>prepare\<close> is the part of \<open>EnqueueWithOptions\<close> that applies
  the options to the new job. \<open>create_job\<close> is the call of \<open>NewJob\<close>, \<open>submit\<close> what
  follows it.
\<close>

definition create_job ::
  "(Job \<Rightarrow> Job) \<Rightarrow> string \<Rightarrow> string \<Rightarrow> gval list option \<Rightarrow> 'b world \<Rightarrow> jobref \<times> 'b world" where
  "create_job prepare workerClass queue args w =
     (let (now, w1) = time_Now w;
          (jid, w2) = uuid_New w1
      in alloc_job (prepare (NewJob jid now workerClass queue args)) w2)"

definition submit ::
  "'b Client \<Rightarrow> ctx \<Rightarrow> string \<Rightarrow> string \<Rightarrow> jobref \<Rightarrow> 'b world \<Rightarrow> (error + string) \<times> 'b world" where
  "submit c ctx workerClass queue r w =
     (case (case GetDefaultValidator w of None \<Rightarrow> None | Some v \<Rightarrow> v (heap w r)) of
        Some err \<Rightarrow> (Inl (Wrapf ''failed to enqueue job: validation failed'' err), w)
      | None \<Rightarrow>
          (case bk_Enqueue (cl_broker c) ctx queue r w of
             (Some err, w1) \<Rightarrow> (Inl (Wrapf ''failed to enqueue job'' err), w1)
           | (None, w1) \<Rightarrow>
               (Inr (JID (heap w1 r)),
                if cl_logger c
                then log_line Info ''job enqueued''
                       [(''jid'', LStr (JID (heap w1 r))), (''class'', LStr workerClass),
                        (''queue'', LStr queue)] w1
                else w1)))"

definition enqueue_job ::
  "(Job \<Rightarrow> Job) \<Rightarrow> 'b Client \<Rightarrow> ctx \<Rightarrow> string \<Rightarrow> string \<Rightarrow> gval list option \<Rightarrow> 'b world \<Rightarrow>
     (error + string) \<times> 'b world" where
  "enqueue_job prepare c ctx workerClass queue args w =
     (case ValidateQueueName queue of
        Some err \<Rightarrow> (Inl (Wrapf ''failed to enqueue job'' err), w)
      | None \<Rightarrow>
          (case ValidateWorkerClass workerClass of
             Some err \<Rightarrow> (Inl (Wrapf ''failed to enqueue job'' err), w)
           | None \<Rightarrow>
               (let (r, w1) = create_job prepare workerClass queue args w
                in submit c ctx workerClass queue r w1)))"

definition Enqueue ::
  "'b Client \<Rightarrow> ctx \<Rightarrow> string \<Rightarrow> string \<Rightarrow> gval list option \<Rightarrow> 'b world \<Rightarrow> (error + string) \<times> 'b world" where
  "Enqueue = enqueue_job (\<lambda>j. j)"

definition apply_options :: "JobOptions option \<Rightarrow> Job \<Rightarrow> Job" where
  "apply_options options j =
     (case options of
        None \<Rightarrow> j
      | Some opts \<Rightarrow>
          (let j1 = (case opt_Retry opts of None \<Rightarrow> j | Some n \<Rightarrow> SetRetry n j)
           in case opt_Backtrace opts of None \<Rightarrow> j1 | Some b \<Rightarrow> SetBacktrace b j1))"

definition EnqueueWithOptions ::
  "'b Client \<Rightarrow> ctx \<Rightarrow> string \<Rightarrow> string \<Rightarrow> JobOptions option \<Rightarrow> gval list option \<Rightarrow> 'b world \<Rightarrow>
     (error + string) \<times> 'b world" where
  "EnqueueWithOptions c ctx workerClass queue options args w =
     enqueue_job (apply_options options) c ctx workerClass queue args w"

text \<open>
  The process-wide client: \<open>globalClient\<close> is an atomic pointer, here the argument \<open>g\<close>.
\<close>

type_synonym 'b globalClient = "'b Client option"

definition SetGlobal :: "'b Client option \<Rightarrow> 'b globalClient \<Rightarrow> 'b globalClient" where
  "SetGlobal c g = c"

definition GetGlobal :: "'b globalClient \<Rightarrow> 'b Client option" where
  "GetGlobal g = g"

definition EnqueueGlobal ::
  "'b globalClient \<Rightarrow> ctx \<Rightarrow> string \<Rightarrow> string \<Rightarrow> gval list option \<Rightarrow> 'b world \<Rightarrow> (error + string) \<times> 'b world"
  where
  "EnqueueGlobal g ctx workerClass queue args w =
     (case g of
        None \<Rightarrow> (Inl GlobalClientNotInitialized, w)
      | Some c \<Rightarrow> Enqueue c ctx workerClass queue args w)"

definition EnqueueWithOptionsGlobal ::
  "'b globalClient \<Rightarrow> ctx \<Rightarrow> string \<Rightarrow> string \<Rightarrow> JobOptions option \<Rightarrow> gval list option \<Rightarrow> 'b world \<Rightarrow>
     (error + string) \<times> 'b world" where
  "EnqueueWithOptionsGlobal g ctx workerClass queue options args w =
     (case g of
        None \<Rightarrow> (Inl GlobalClientNotInitialized, w)
      | Some c \<Rightarrow> EnqueueWithOptions c ctx workerClass queue options args w)"

text \<open>The new job and the world in which it is allocated.\<close>

definition new_job ::
  "(Job \<Rightarrow> Job) \<Rightarrow> string \<Rightarrow> string \<Rightarrow> gval list option \<Rightarrow> 'b world \<Rightarrow> Job" where
  "new_job prepare workerClass queue args w =
     prepare (NewJob (uuids w 0) (clock w 0) workerClass queue args)"

definition with_job ::
  "(Job \<Rightarrow> Job) \<Rightarrow> string \<Rightarrow> string \<Rightarrow> gval list option \<Rightarrow> 'b world \<Rightarrow> 'b world" where
  "with_job prepare workerClass queue args w =
     snd (alloc_job (new_job prepare workerClass queue args w) (snd (uuid_New (snd (time_Now w)))))"

text \<open>The retry limit and the backtrace flag the options ask for, or the defaults.\<close>

definition asked_retry :: "JobOptions option \<Rightarrow> int" where
  "asked_retry opts = (case Option.bind opts opt_Retry of None \<Rightarrow> 5 | Some n \<Rightarrow> max 0 (min n 25))"

definition asked_backtrace :: "JobOptions option \<Rightarrow> bool" where
  "asked_backtrace opts = (case Option.bind opts opt_Backtrace of None \<Rightarrow> False | Some b \<Rightarrow> b)"

text \<open>A concrete world with an empty broker.\<close>

definition demo_client_world :: mem_world where
  "demo_client_world = start_world NewInMemoryBroker []"

section \<open>Lemmas\<close>

lemma uuid_New_sel [frame, simp]:
  "fst (uuid_New w) = uuids w 0"
  "brk (snd (uuid_New w)) = brk w" "heap (snd (uuid_New w)) = heap w"
  "next_ref (snd (uuid_New w)) = next_ref w" "defaultValidator (snd (uuid_New w)) = defaultValidator w"
  "cancelled (snd (uuid_New w)) = cancelled w" "user_ctx (snd (uuid_New w)) = user_ctx w"
  "clock (snd (uuid_New w)) = clock w" "logs (snd (uuid_New w)) = logs w"
  by (simp_all add: uuid_New_def)

lemma with_job_sel [simp]:
  "brk (with_job f c q a w) = brk w" "next_ref (with_job f c q a w) = Suc (next_ref w)"
  "heap (with_job f c q a w) = (heap w)(next_ref w := new_job f c q a w)"
  "same_ids w (with_job f c q a w)"
  by (simp_all add: with_job_def alloc_job_def same_ids_def)

text \<open>The cases of an enqueue, in the order of the code's checks.\<close>

lemma enqueue_job_cases:
  assumes "enqueue_job f c ctx cls q args w = (res, w')"
  obtains (queue) e where "\<not> validQueueName q" "res = Inl e" "w' = w"
    | (cls) e where "validQueueName q" "cls = []" "res = Inl e" "w' = w"
    | (invalid) v e where "validQueueName q" "cls \<noteq> []" "defaultValidator w = Some v"
        "v (new_job f cls q args w) = Some e"
        "res = Inl (Wrapf ''failed to enqueue job: validation failed'' e)" "w' = with_job f cls q args w"
    | (broker) e where "validQueueName q" "cls \<noteq> []"
        "bk_Enqueue (cl_broker c) ctx q (next_ref w) (with_job f cls q args w) = (Some e, w')"
        "res = Inl (Wrapf ''failed to enqueue job'' e)"
    | (stored) w4 l m k where "validQueueName q" "cls \<noteq> []"
        "\<forall>v. defaultValidator w = Some v \<longrightarrow> v (new_job f cls q args w) = None"
        "bk_Enqueue (cl_broker c) ctx q (next_ref w) (with_job f cls q args w) = (None, w4)"
        "res = Inr (JID (heap w4 (next_ref w)))" "w' = w4 \<or> w' = log_line l m k w4"
proof -
  let ?w3 = "with_job f cls q args w" and ?j = "new_job f cls q args w"
  have a: "create_job f cls q args w = (next_ref w, ?w3)"
    by (simp add: create_job_def with_job_def new_job_def alloc_job_def case_prod_beta) (simp add: time_Now_def)
  have v: "GetDefaultValidator ?w3 = defaultValidator w" "heap ?w3 (next_ref w) = ?j"
    by (simp_all add: GetDefaultValidator_def with_job_def alloc_job_def) (simp add: time_Now_def)
  show thesis
  proof (cases "validQueueName q \<and> cls \<noteq> []")
    case False
    then show ?thesis using assms queue cls
      by (auto simp: enqueue_job_def ValidateQueueName_def ValidateWorkerClass_def split: if_splits)
  next
    case True
    then have eq: "submit c ctx cls q (next_ref w) ?w3 = (res, w')"
      using assms by (simp add: enqueue_job_def ValidateQueueName_def ValidateWorkerClass_def a)
    obtain e w4 where enq: "bk_Enqueue (cl_broker c) ctx q (next_ref w) ?w3 = (e, w4)"
      by (cases "bk_Enqueue (cl_broker c) ctx q (next_ref w) ?w3")
    show ?thesis
    proof (cases "case defaultValidator w of None \<Rightarrow> None | Some v \<Rightarrow> v ?j")
      case (Some err)
      then show ?thesis using invalid True eq by (auto simp: submit_def v split: option.splits)
    next
      case None
      then show ?thesis
        using broker stored True eq enq
        by (cases e) (auto simp: submit_def v split: option.splits if_splits)
    qed
  qed
qed

context broker_contract
begin

lemma enqueue_job_places:
  assumes "invar w" "cl_broker c = B" "enqueue_job f c ctx cls q args w = (res, w')"
    and adm: "admissible (new_job f cls q args w)"
  shows "invar w' \<and> same_ids w w' \<and>
    (case res of Inl _ \<Rightarrow> places_le (where_is w) (where_is w')
     | Inr jid \<Rightarrow> where_is w' = put_pending jid (where_is w))"
proof -
  let ?w3 = "with_job f cls q args w"
  let ?w0 = "snd (uuid_New (snd (time_Now w)))"
  have w0: "invar ?w0" "where_is ?w0 = where_is w"
    using where_is_cong [of ?w0 w] assms(1) by (simp_all add: same_ids_def)
  have w3: "invar ?w3" "where_is ?w3 = where_is w"
    using alloc_law [OF w0(1) adm] w0(2) by (simp_all add: with_job_def)
  have r: "next_ref w < next_ref ?w3" by simp
  show ?thesis
  proof (rule enqueue_job_cases [OF assms(3)], goal_cases)
    case (4 e)
    from enqueue_law [OF w3(1) r 4(3) [unfolded assms(2)]] w3(2) 4(4) show ?case
      using same_ids_trans [OF with_job_sel(4)] by (auto simp: places_le_def)
  next
    case (5 w4 l m k)
    note law = enqueue_law [OF w3(1) r 5(4) [unfolded assms(2)]]
    have jid: "JID (heap w4 (next_ref w)) = JID (heap ?w3 (next_ref w))"
      using law r same_ids_JID by blast
    have w4: "invar w4" "same_ids w w4"
      "where_is w4 = (where_is w)\<lparr>pending := insert (JID (heap w4 (next_ref w))) (pending (where_is w))\<rparr>"
      using law same_ids_trans [OF with_job_sel(4)] w3(2) jid by auto
    have "same_ids w4 w'" "brk w' = brk w4" "next_ref w' = next_ref w4" using 5(6) by (auto simp: same_ids_def)
    with where_is_cong [of w' w4] w4 5(5) same_ids_trans [OF w4(2)] show ?case by auto
  qed (use assms(1) w3 with_job_sel(4) in auto)
qed

end

section \<open>Properties\<close>

lemma apply_options_identity: "identity (apply_options opts j) = identity j"
  by (simp add: apply_options_def SetRetry_def SetBacktrace_def identity_def Let_def split: option.split)

lemma apply_options_wf:
  "wf_job j \<Longrightarrow> wf_job (apply_options opts j) \<and> State (apply_options opts j) = State j \<and>
     RetryCount (apply_options opts j) = RetryCount j"
  by (auto simp: apply_options_def SetRetry_def SetBacktrace_def wf_job_def job_consts Let_def split: option.split)

lemma mem_Enqueue_ok:
  "mem_Enqueue ctx q r w = (None, w') \<Longrightarrow>
     w' = w\<lparr>brk := set_queue q (queue_of (brk w) q @ [r]) (brk w)\<rparr>"
  by (auto simp: mem_Enqueue_def Let_def split: option.splits if_splits prod.splits)

lemma apply_options_asked:
  "Retry (apply_options opts (NewJob jid now cls q args)) = asked_retry opts"
  "Backtrace (apply_options opts (NewJob jid now cls q args)) = asked_backtrace opts"
  by (cases opts; auto simp: apply_options_def asked_retry_def asked_backtrace_def SetRetry_def SetBacktrace_def
      NewJob_def job_consts Let_def split: option.split)+

text \<open>
  C32: a job the client reports as enqueued on the in-memory broker is stored as asked: it has the fresh
  identifier the client returns, the class, queue and arguments of the call, the retry limit of the options
  brought within its bounds and their backtrace flag, the defaults where the options say nothing, no
  retries yet, the default validator accepted it, and it is the last entry of its queue; the
  other queues are as before.
\<close>

theorem client_enqueue_stores:
  assumes "EnqueueWithOptions (New memB logger) ctx cls q opts args w = (Inr jid, w')"
  shows "jid = uuids w 0 \<and> validQueueName q \<and> cls \<noteq> [] \<and>
    queue_of (brk w') = (queue_of (brk w))(q := queue_of (brk w) q @ [next_ref w]) \<and>
    (\<exists>j. heap w' = (heap w)(next_ref w := j) \<and> wf_job j \<and> RetryCount j = 0 \<and>
       Retry j = asked_retry opts \<and> Backtrace j = asked_backtrace opts \<and>
       JID j = jid \<and> Class j = cls \<and> Queue j = q \<and> Args j = args \<and> State j = JobStatePending \<and>
       (\<forall>v. defaultValidator w = Some v \<longrightarrow> v j = None))"
proof (rule enqueue_job_cases [OF assms [unfolded EnqueueWithOptions_def]], goal_cases)
  case (5 w4 l m k)
  let ?j = "new_job (apply_options opts) cls q args w"
  let ?w3 = "with_job (apply_options opts) cls q args w"
  have "mem_Enqueue ctx q (next_ref w) ?w3 = (None, w4)"
    using 5(4) by (simp add: New_def memB_def)
  from mem_Enqueue_ok [OF this] have w4: "heap w4 = (heap w)(next_ref w := ?j)"
    "queue_of (brk w4) = (queue_of (brk w))(q := queue_of (brk w) q @ [next_ref w])"
    by (auto simp: fun_eq_iff)
  have w': "heap w' = heap w4" "brk w' = brk w4" using 5(6) by auto
  have id: "identity ?j = (uuids w 0, cls, args, q, [])"
    by (simp add: new_job_def apply_options_identity) (simp add: identity_def NewJob_def)
  then have "JID ?j = uuids w 0" "Class ?j = cls" "Queue ?j = q" "Args ?j = args"
    by (simp_all add: identity_def)
  moreover have "Retry ?j = asked_retry opts" "Backtrace ?j = asked_backtrace opts"
    by (simp_all add: new_job_def apply_options_asked)
  moreover have "wf_job ?j" "State ?j = JobStatePending" "RetryCount ?j = 0"
    using apply_options_wf [OF NewJob_wf] by (simp_all add: new_job_def) (simp_all add: NewJob_def)
  ultimately show ?case using 5 w4 w' by auto
qed simp_all

theorem client_enqueue_stores_witness:
  "\<exists>w'. EnqueueWithOptions (New memB True) Background ''Mail'' ''default''
      (Some \<lparr>opt_Retry = Some 99, opt_Backtrace = Some True\<rparr>) None demo_client_world = (Inr ''u'', w') \<and>
    Retry (heap w' 0) = 25 \<and> Backtrace (heap w' 0)"
proof -
  let ?c = "EnqueueWithOptions (New memB True) Background ''Mail'' ''default''
      (Some \<lparr>opt_Retry = Some 99, opt_Backtrace = Some True\<rparr>) None demo_client_world"
  have "\<exists>w'. ?c = (Inr ''u'', w')"
    by (simp add: EnqueueWithOptions_def enqueue_job_def ValidateQueueName_def validQueueName_def
        queue_name_char_def ValidateWorkerClass_def create_job_def submit_def demo_client_world_def
        start_world_def time_Now_def uuid_New_def alloc_job_def GetDefaultValidator_def New_def memB_def
        mem_Enqueue_def NewInMemoryBroker_def apply_options_def SetRetry_def SetBacktrace_def NewJob_def job_consts)
  then obtain w' where w': "?c = (Inr ''u'', w')" by blast
  from client_enqueue_stores [OF this] show ?thesis
    using w' by (auto simp: demo_client_world_def asked_retry_def asked_backtrace_def)
qed

text \<open>
  C33: a rejected call leaves no trace in the in-memory broker: the broker is as before, and there is a
  reason in the call, the default validator, the context or the broker being closed.
\<close>

theorem client_enqueue_rejects:
  assumes "EnqueueWithOptions (New memB logger) ctx cls q opts args w = (Inl e, w')"
  shows "brk w' = brk w \<and>
    (\<not> validQueueName q \<or> cls = [] \<or>
     (\<exists>v. defaultValidator w = Some v \<and> v (new_job (apply_options opts) cls q args w) \<noteq> None) \<or>
     ctx_Err (with_job (apply_options opts) cls q args w) ctx \<noteq> None \<or> is_done (brk w))"
proof (rule enqueue_job_cases [OF assms [unfolded EnqueueWithOptions_def]], goal_cases)
  case (4 e)
  then have "mem_Enqueue ctx q (next_ref w) (with_job (apply_options opts) cls q args w) = (Some e, w')"
    by (simp add: New_def memB_def)
  then show ?case
    by (auto simp: mem_Enqueue_def select_choice_def Let_def split: option.splits if_splits prod.splits)
qed auto

theorem client_enqueue_rejects_witness:
  "\<exists>e w'. EnqueueWithOptions (New memB True) Background ''Mail'' ''no spaces'' None None demo_client_world
     = (Inl e, w') \<and> brk w' = brk demo_client_world"
proof -
  have "\<not> validQueueName ''no spaces''"
    by (simp add: validQueueName_def queue_name_char_def)
  then obtain e w' where "EnqueueWithOptions (New memB True) Background ''Mail'' ''no spaces'' None None
      demo_client_world = (Inl e, w')"
    by (simp add: EnqueueWithOptions_def enqueue_job_def ValidateQueueName_def)
  with client_enqueue_rejects [OF this] show ?thesis by blast
qed

end
