(* ===== verification/Queue_Stats.thy ===== *)
theory Queue_Stats
  imports Memory_Broker
begin

text \<open>
  Queues, statistics and health records of \<^verbatim>\<open>internal/queue/queue.go\<close>, and the counting
  metrics handler of \<^verbatim>\<open>internal/queue/metrics.go\<close>.
\<close>

section \<open>Queues\<close>

record 'b Queue_handle =
  q_name :: string
  q_broker :: "'b Broker"

definition NewQueue :: "string \<Rightarrow> 'b Broker \<Rightarrow> 'b Queue_handle" where
  "NewQueue name b = \<lparr>q_name = name, q_broker = b\<rparr>"

definition Size :: "'b Queue_handle \<Rightarrow> 'b world \<Rightarrow> (error + int) \<times> 'b world" where
  "Size q w = bk_GetQueueSize (q_broker q) (q_name q) w"

definition Queue_Name :: "'b Queue_handle \<Rightarrow> string" where
  "Queue_Name q = q_name q"

definition Clear :: "'b Queue_handle \<Rightarrow> 'b world \<Rightarrow> 'b result" where
  "Clear q w = bk_DeleteKey (q_broker q) (''queue:'' @ q_name q) w"

section \<open>Statistics\<close>

record Stats =
  st_Processed :: int
  st_Failed :: int
  st_Retry :: int
  st_Dead :: int
  st_Queues :: "(string \<times> int) list"

text \<open>The numeric cases of the type switches.\<close>

fun numeric :: "(rat \<Rightarrow> int) \<Rightarrow> sval \<Rightarrow> int option" where
  "numeric oob (SInt64 n) = Some n"
| "numeric oob (SInt n) = Some n"
| "numeric oob (SFloat64 r) = Some (int_of_float oob r)"
| "numeric oob _ = None"

definition getInt64 :: "(rat \<Rightarrow> int) \<Rightarrow> (string \<times> sval) list \<Rightarrow> string \<Rightarrow> error + int" where
  "getInt64 oob m key =
     (case map_of m key of
        None \<Rightarrow> Inl (StatsMissing key)
      | Some v \<Rightarrow>
          if v = SNil then Inl (StatsMissing key)
          else case numeric oob v of Some n \<Rightarrow> Inr n | None \<Rightarrow> Inl (StatsInvalidType key))"

text \<open>The copying loop over a \<open>map[string]interface{}\<close>; \<open>ks\<close> are the keys in range order.\<close>

fun copy_sizes ::
  "(rat \<Rightarrow> int) \<Rightarrow> string \<Rightarrow> (string \<times> sval) list \<Rightarrow> string list \<Rightarrow> (string \<times> int) list \<Rightarrow>
     error + (string \<times> int) list" where
  "copy_sizes oob key raw [] out = Inr out"
| "copy_sizes oob key raw (k # ks) out =
     (case map_of raw k of
        None \<Rightarrow> copy_sizes oob key raw ks out
      | Some v \<Rightarrow>
          if v = SNil then copy_sizes oob key raw ks (AList.update k 0 out)
          else case numeric oob v of
                 Some n \<Rightarrow> copy_sizes oob key raw ks (AList.update k n out)
               | None \<Rightarrow> Inl (StatsQueueInvalidType key k))"

definition getQueuesMap ::
  "(rat \<Rightarrow> int) \<Rightarrow> map_order \<Rightarrow> (string \<times> sval) list \<Rightarrow> string \<Rightarrow> error + (string \<times> int) list" where
  "getQueuesMap oob ord m key =
     (case map_of m key of
        None \<Rightarrow> Inl (StatsMissing key)
      | Some SNil \<Rightarrow> Inl (StatsMissing key)
      | Some (SQueues l) \<Rightarrow> Inr l
      | Some (SMap raw) \<Rightarrow> copy_sizes oob key raw (ord 0 (map fst raw)) []
      | Some _ \<Rightarrow> Inl (StatsNotAMap key))"

definition read_stats :: "(rat \<Rightarrow> int) \<Rightarrow> (string \<times> sval) list \<Rightarrow> 'b world \<Rightarrow> (error + Stats) \<times> 'b world" where
  "read_stats oob m w =
     (case getInt64 oob m ''processed'' of Inl e \<Rightarrow> (Inl e, w) | Inr p \<Rightarrow>
     (case getInt64 oob m ''failed'' of Inl e \<Rightarrow> (Inl e, w) | Inr f \<Rightarrow>
     (case getInt64 oob m ''retry'' of Inl e \<Rightarrow> (Inl e, w) | Inr r \<Rightarrow>
     (case getInt64 oob m ''dead'' of Inl e \<Rightarrow> (Inl e, w) | Inr d \<Rightarrow>
     (let (ord, w1) = range_order w in
      case getQueuesMap oob ord m ''queues'' of Inl e \<Rightarrow> (Inl e, w1) | Inr qs \<Rightarrow>
        (Inr \<lparr>st_Processed = p, st_Failed = f, st_Retry = r, st_Dead = d, st_Queues = qs\<rparr>, w1))))))"

text \<open>\<open>None\<close> when the broker's call never returns.\<close>

definition GetStats :: "(rat \<Rightarrow> int) \<Rightarrow> 'b Broker \<Rightarrow> 'b world \<Rightarrow> ((error + Stats) \<times> 'b world) option" where
  "GetStats oob B w =
     (case bk_GetStats B w of
        None \<Rightarrow> None
      | Some (Inl err, w1) \<Rightarrow> Some (Inl err, w1)
      | Some (Inr m, w1) \<Rightarrow> Some (read_stats oob m w1))"

section \<open>Health and metrics\<close>

definition HealthOK :: string where "HealthOK = ''ok''"
definition HealthDown :: string where "HealthDown = ''down''"

text \<open>\<open>h_Errors\<close> holds the reasons: the ping error, and \<open>None\<close> for an engine not started.\<close>

record HealthStatus =
  h_Status :: string
  h_EngineStarted :: bool
  h_BrokerReachable :: bool
  h_BrokerLatency :: dur
  h_WorkersRegistered :: nat
  h_Queues :: "string list"
  h_CheckedAt :: time
  h_Errors :: "error option list"

record InMemoryMetrics =
  processedTotal :: int
  failedTotal :: int

definition HandleJobEvent :: "JobEvent \<Rightarrow> InMemoryMetrics \<Rightarrow> InMemoryMetrics" where
  "HandleJobEvent e m =
     (if ev_Type e = EventJobSucceeded then m\<lparr>processedTotal := wrap64 (processedTotal m + 1)\<rparr>
      else if ev_Type e = EventJobFailed then m\<lparr>failedTotal := wrap64 (failedTotal m + 1)\<rparr>
      else m)"

definition ProcessedTotal :: "InMemoryMetrics \<Rightarrow> int" where
  "ProcessedTotal m = processedTotal m"

definition FailedTotal :: "InMemoryMetrics \<Rightarrow> int" where
  "FailedTotal m = failedTotal m"

text \<open>The number a reported size stands for, if it is one.\<close>

definition size_of :: "(rat \<Rightarrow> int) \<Rightarrow> sval \<Rightarrow> int option" where
  "size_of oob v = (if v = SNil then Some 0 else numeric oob v)"

section \<open>Properties\<close>

text \<open>
  The statistics of the in-memory broker can always be read and are those of its sets:
  the counters, the sizes of the retry set and the dead set, and the length of every queue.
\<close>

lemma stats_of_memory:
  "\<exists>w'. GetStats oob memB w =
     Some (Inr \<lparr>st_Processed = processed (brk w), st_Failed = failed (brk w),
        st_Retry = int (length (retry (brk w))), st_Dead = int (length (dead (brk w))),
        st_Queues = map (\<lambda>(q, l). (q, int (length l))) (queues (brk w))\<rparr>, w') \<and> brk w' = brk w"
  by (simp add: GetStats_def read_stats_def memB_def mem_GetStats_def getInt64_def getQueuesMap_def range_order_def Let_def)

lemma queue_of_delete: "queue_of (m\<lparr>queues := AList.delete q (queues m)\<rparr>) = (queue_of m)(q := [])"
  by (auto simp: queue_of_def delete_conv' fun_eq_iff)

text \<open>
  \<open>Clear\<close> empties its queue and no other, so that \<open>Size\<close> is 0 afterwards and every other
  queue, the leases, the retry set and the dead set are as before.
\<close>

lemma clear_is_exact:
  "\<exists>w'. Clear (NewQueue q memB) w = (None, w') \<and> fst (Size (NewQueue q memB) w') = Inr 0 \<and>
     queue_of (brk w') = (queue_of (brk w))(q := []) \<and> processing (brk w') = processing (brk w) \<and>
     retry (brk w') = retry (brk w) \<and> dead (brk w') = dead (brk w)"
proof -
  let ?w' = "w\<lparr>brk := (brk w)\<lparr>queues := AList.delete q (queues (brk w))\<rparr>\<rparr>"
  have "Clear (NewQueue q memB) w = (None, ?w')"
    by (simp add: Clear_def NewQueue_def memB_def mem_DeleteKey_def HasPrefix_def)
  moreover have "queue_of (brk ?w') = (queue_of (brk w))(q := [])"
    by (simp add: queue_of_delete)
  ultimately show ?thesis
    by (simp add: Size_def NewQueue_def memB_def mem_GetQueueSize_def)
qed

text \<open>
  The counting handler counts: after any sequence of events its totals have grown by the
  numbers of success and failure events, as long as they stay within \<open>int64\<close>.
\<close>

lemma metrics_count:
  assumes "0 \<le> processedTotal m" "0 \<le> failedTotal m"
    and "in64 (processedTotal m + int (length evs))" "in64 (failedTotal m + int (length evs))"
  shows "ProcessedTotal (fold HandleJobEvent evs m) =
      processedTotal m + int (length (filter (\<lambda>e. ev_Type e = EventJobSucceeded) evs)) \<and>
    FailedTotal (fold HandleJobEvent evs m) =
      failedTotal m + int (length (filter (\<lambda>e. ev_Type e = EventJobFailed) evs))"
  using assms
proof (induction evs arbitrary: m)
  case Nil
  then show ?case by (simp add: ProcessedTotal_def FailedTotal_def)
next
  case (Cons e evs)
  have "in64 (processedTotal m + 1)" "in64 (failedTotal m + 1)"
    using Cons.prems by (simp_all add: in64_def)
  then have m1: "processedTotal (HandleJobEvent e m) =
      processedTotal m + (if ev_Type e = EventJobSucceeded then 1 else 0)"
    "failedTotal (HandleJobEvent e m) = failedTotal m + (if ev_Type e = EventJobFailed then 1 else 0)"
    by (auto simp: HandleJobEvent_def event_types)
  show ?case
    using Cons.IH [of "HandleJobEvent e m"] Cons.prems m1
    by (auto simp: in64_def event_types split: if_splits)
qed

lemma metrics_count_witness:
  "ProcessedTotal (fold HandleJobEvent
     [\<lparr>ev_Type = EventJobStarted, ev_Job = 0, ev_Queue = ''q'', ev_Duration = 0, ev_Err = None\<rparr>,
      \<lparr>ev_Type = EventJobSucceeded, ev_Job = 0, ev_Queue = ''q'', ev_Duration = 5, ev_Err = None\<rparr>]
     \<lparr>processedTotal = 0, failedTotal = 0\<rparr>) = 1"
  using metrics_count [of "\<lparr>processedTotal = 0, failedTotal = 0\<rparr>"
     "[\<lparr>ev_Type = EventJobStarted, ev_Job = 0, ev_Queue = ''q'', ev_Duration = 0, ev_Err = None\<rparr>,
      \<lparr>ev_Type = EventJobSucceeded, ev_Job = 0, ev_Queue = ''q'', ev_Duration = 5, ev_Err = None\<rparr>]"]
  by (simp add: in64_def event_types)

lemma copy_sizes_Cons:
  "map_of raw k = Some v \<Longrightarrow>
   copy_sizes oob key raw (k # ks) out =
     (case size_of oob v of
        Some n \<Rightarrow> copy_sizes oob key raw ks (AList.update k n out)
      | None \<Rightarrow> Inl (StatsQueueInvalidType key k))"
  by (simp add: size_of_def)

lemma copy_sizes_ok:
  assumes "\<forall>k \<in> set ks. \<exists>v. map_of raw k = Some v \<and> size_of oob v \<noteq> None"
  shows "\<exists>res. copy_sizes oob key raw ks out = Inr res \<and>
    map_of res = (\<lambda>k. if k \<in> set ks then Option.bind (map_of raw k) (size_of oob) else map_of out k)"
  using assms
proof (induction ks arbitrary: out)
  case (Cons k ks)
  then obtain v n where v: "map_of raw k = Some v" "size_of oob v = Some n" by auto
  obtain res where "copy_sizes oob key raw ks (AList.update k n out) = Inr res"
    "map_of res = (\<lambda>x. if x \<in> set ks then Option.bind (map_of raw x) (size_of oob)
       else map_of (AList.update k n out) x)"
    using Cons.IH [of "AList.update k n out"] Cons.prems by auto
  then show ?case using v by (auto simp: copy_sizes_Cons update_conv' fun_eq_iff simp del: copy_sizes.simps)
qed (auto simp: fun_eq_iff)

lemma copy_sizes_bad:
  assumes "k \<in> set ks" "map_of raw k = Some v" "size_of oob v = None" "set ks \<subseteq> dom (map_of raw)"
  shows "\<exists>e. copy_sizes oob key raw ks out = Inl e"
  using assms
proof (induction ks arbitrary: out)
  case (Cons a ks)
  then obtain u where u: "map_of raw a = Some u" by auto
  with Cons show ?case
    by (cases "size_of oob u") (auto simp: copy_sizes_Cons simp del: copy_sizes.simps)
qed simp

text \<open>
  Reading the queue sizes of a broker that reports them as untyped values does not depend
  on the order in which Go visits the map: the result has each queue with its number, a nil value
  as 0, and the call fails exactly when some value is neither nil nor a number.
\<close>

lemma queues_map_order_free:
  assumes "map_of m key = Some (SMap raw)" "visits_all ord"
  shows "(if \<forall>k v. map_of raw k = Some v \<longrightarrow> size_of oob v \<noteq> None
    then \<exists>res. getQueuesMap oob ord m key = Inr res \<and>
      map_of res = (\<lambda>k. Option.bind (map_of raw k) (size_of oob))
    else \<exists>e. getQueuesMap oob ord m key = Inl e)"
proof -
  let ?ks = "ord 0 (map fst raw)"
  have eq: "getQueuesMap oob ord m key = copy_sizes oob key raw ?ks []"
    using assms(1) by (simp add: getQueuesMap_def)
  have ks: "set ?ks = dom (map_of raw)"
    using assms(2) by (simp add: visits_all_def dom_map_of_conv_image_fst)
  show ?thesis
  proof (cases "\<forall>k v. map_of raw k = Some v \<longrightarrow> size_of oob v \<noteq> None")
    case True
    with ks have "\<forall>k \<in> set ?ks. \<exists>v. map_of raw k = Some v \<and> size_of oob v \<noteq> None" by auto
    from copy_sizes_ok [OF this, of key "[]"] obtain res where
      "copy_sizes oob key raw ?ks [] = Inr res"
      "map_of res = (\<lambda>k. if k \<in> set ?ks then Option.bind (map_of raw k) (size_of oob) else map_of [] k)"
      by blast
    moreover have "(if k \<in> set ?ks then Option.bind (map_of raw k) (size_of oob) else map_of [] k) =
        Option.bind (map_of raw k) (size_of oob)" for k
      using ks by (auto simp: domIff)
    ultimately show ?thesis using True eq by auto
  next
    case False
    then obtain k v where "map_of raw k = Some v" "size_of oob v = None" by auto
    with copy_sizes_bad [of k ?ks raw v oob key "[]"] ks have "\<exists>e. getQueuesMap oob ord m key = Inl e"
      by (auto simp: eq)
    then show ?thesis by (simp only: False if_False)
  qed
qed

lemma queues_map_order_free_witness:
  "\<exists>res. getQueuesMap (\<lambda>_. 0) (\<lambda>_ ks. rev ks) [(''queues'', SMap [(''a'', SInt 3), (''b'', SNil)])] ''queues'' = Inr res"
proof -
  have "visits_all (\<lambda>_ ks. rev ks)" by (simp add: visits_all_def)
  from queues_map_order_free [OF _ this, of "[(''queues'', SMap [(''a'', SInt 3), (''b'', SNil)])]" "''queues''"
      "[(''a'', SInt 3), (''b'', SNil)]" "\<lambda>_. 0"]
  show ?thesis by (auto simp: size_of_def split: if_splits)
qed

end
