(* ===== verification/Engine.thy ===== *)
theory Engine
  imports Job_Safety Queue_Stats
begin

text \<open>
  The engine of \<^verbatim>\<open>engine.go\<close>: the worker registry of the engine, construction, settings,
  lifecycle and health. The world holds one engine; \<open>engine_workers\<close> is its registry.
\<close>

section \<open>The registry of the engine\<close>

definition engineRegistry_GetWorker :: "'b WorkerRegistry" where
  "engineRegistry_GetWorker className w =
     (case map_of (engine_workers w) className of
        None \<Rightarrow> (None, Some (WorkerClassNotFound className))
      | Some worker \<Rightarrow> (worker, None))"

definition engineRegistry_register :: "string \<Rightarrow> workerref option \<Rightarrow> 'b world \<Rightarrow> 'b world" where
  "engineRegistry_register className worker w =
     w\<lparr>engine_workers := AList.update className worker (engine_workers w)\<rparr>"

definition engineRegistry_count :: "'b world \<Rightarrow> nat" where
  "engineRegistry_count w = length (engine_workers w)"

section \<open>The engine\<close>

text \<open>
  The chain is one object that the engine and its processor share: \<open>Use\<close> changes it for both.
  \<open>e_stopped\<close> is the state of \<open>stopOnce\<close>.
\<close>

record 'b Engine =
  e_cfg :: Config
  e_broker :: "'b Broker"
  e_processor :: "'b Processor"
  e_chain :: "'b Chain option"
  e_started :: bool
  e_stopped :: bool
  e_redactor :: "Redactor option"
  e_validator :: "Validator option"

text \<open>\<open>b\<close> is the number of the breaker object the call allocates.\<close>

definition newEngine :: "nat \<Rightarrow> Config \<Rightarrow> 'b Broker \<Rightarrow> 'b world \<Rightarrow> 'b Engine \<times> 'b world" where
  "newEngine b cfg B w =
     (let breaker = NewCircuitBreaker \<lparr>FailureThreshold = 0, Window = 0, ResetTimeout = 0\<rparr>;
          w1 = w\<lparr>engine_workers := [], breakers := (breakers w)(b := breaker)\<rparr>;
          chain = NewChain [RecoveryMiddleware, LoggingMiddleware [], BreakerMiddleware (Some b)];
          processor = NewProcessor cfg (Some engineRegistry_GetWorker) (Some chain)
      in (\<lparr>e_cfg = cfg, e_broker = B, e_processor = processor, e_chain = Some chain,
           e_started = False, e_stopped = False, e_redactor = None, e_validator = None\<rparr>, w1))"

definition engine_Use :: "'b Middleware list \<Rightarrow> 'b Engine \<Rightarrow> error option \<times> 'b Engine" where
  "engine_Use ms e =
     (if e_started e then (Some (MustBeBeforeStart ''Use''), e)
      else case e_chain e of
             None \<Rightarrow> (Some ChainNotInitialized, e)
           | Some c \<Rightarrow>
               (None, e\<lparr>e_chain := Some (Use ms c),
                  e_processor := (e_processor e)\<lparr>p_chain := Use ms c\<rparr>\<rparr>))"

definition Register :: "string \<Rightarrow> workerref option \<Rightarrow> 'b world \<Rightarrow> 'b world" where
  "Register className worker w =
     (if className = [] then w else engineRegistry_register className worker w)"

text \<open>\<open>ks\<close> are the keys of the given map in range order.\<close>

definition RegisterMany :: "(string \<times> workerref option) list \<Rightarrow> 'b world \<Rightarrow> 'b world" where
  "RegisterMany ws w =
     (let (ord, w1) = range_order w;
          ks = ord 0 (map fst ws)
      in fold (\<lambda>name w. case map_of ws name of
                          None \<Rightarrow> w
                        | Some worker \<Rightarrow>
                            if name \<noteq> [] then engineRegistry_register name worker w else w) ks w1)"

definition engine_Start :: "'b Engine \<Rightarrow> 'b world \<Rightarrow> (error + goroutine list) \<times> 'b Engine \<times> 'b world" where
  "engine_Start e w =
     (if e_started e then (Inl EngineAlreadyStarted, e, w)
      else
        (let e1 = e\<lparr>e_started := True\<rparr>
         in case Start (e_processor e1) w of
              (Inl err, w1) \<Rightarrow> (Inl err, e1, w1)
            | (Inr (p, gs), w1) \<Rightarrow> (Inr gs, e1\<lparr>e_processor := p\<rparr>, w1)))"

text \<open>\<open>Stop\<close> up to the wait for the goroutines, and what follows the wait.\<close>

definition engine_Stop_begin :: "'b Engine \<Rightarrow> 'b world \<Rightarrow> bool \<times> 'b Engine \<times> 'b world" where
  "engine_Stop_begin e w =
     (if e_stopped e then (False, e, w) else (True, e\<lparr>e_stopped := True\<rparr>, Stop_begin w))"

definition engine_Stop_end :: "'b Engine \<Rightarrow> 'b world \<Rightarrow> 'b world" where
  "engine_Stop_end e w = snd (bk_Close (e_broker e) (Stop_end w))"

definition engine_SetRedactor :: "Redactor option \<Rightarrow> 'b Engine \<Rightarrow> error option \<times> 'b Engine" where
  "engine_SetRedactor r e =
     (if e_started e then (Some (MustBeBeforeStart ''SetRedactor''), e)
      else (let (err, p) = SetRedactor r (e_processor e) in (err, e\<lparr>e_redactor := r, e_processor := p\<rparr>)))"

definition engine_SetValidator :: "Validator option \<Rightarrow> 'b Engine \<Rightarrow> error option \<times> 'b Engine" where
  "engine_SetValidator v e =
     (if e_started e then (Some (MustBeBeforeStart ''SetValidator''), e)
      else (let (err, p) = SetValidator v (e_processor e) in (err, e\<lparr>e_validator := v, e_processor := p\<rparr>)))"

definition engine_SetMetricsHandler ::
  "(JobEvent \<Rightarrow> 'b world \<Rightarrow> 'b world) option \<Rightarrow> 'b Engine \<Rightarrow> error option \<times> 'b Engine" where
  "engine_SetMetricsHandler h e =
     (let (err, p) = SetMetricsHandler h (e_processor e) in (err, e\<lparr>e_processor := p\<rparr>))"

definition engine_Stats ::
  "(rat \<Rightarrow> int) \<Rightarrow> 'b Engine \<Rightarrow> 'b world \<Rightarrow> ((error + Stats) \<times> 'b world) option" where
  "engine_Stats oob e w = GetStats oob (e_broker e) w"

text \<open>The loop of \<open>dedupQueueNames\<close>.\<close>

fun dedup_loop :: "QueueConfig list \<Rightarrow> string list \<Rightarrow> string list \<Rightarrow> string list" where
  "dedup_loop [] seen out = out"
| "dedup_loop (q # qs) seen out =
     (if Name q \<in> set seen then dedup_loop qs seen out
      else dedup_loop qs (Name q # seen) (out @ [Name q]))"

definition dedupQueueNames :: "QueueConfig list \<Rightarrow> string list" where
  "dedupQueueNames qs = dedup_loop qs [] []"

definition Health :: "ctx \<Rightarrow> 'b Engine \<Rightarrow> 'b world \<Rightarrow> HealthStatus \<times> 'b world" where
  "Health ctx e w =
     (let started = e_started e;
          queueNames = dedupQueueNames (Queues (e_cfg e));
          (checked, w1) = time_Now w;
          (pingStart, w2) = time_Now w1;
          (pingErr, w3) = bk_Ping (e_broker e) ctx w2;
          (pingEnd, w4) = time_Now w3;
          errors = (case pingErr of None \<Rightarrow> [] | Some err \<Rightarrow> [Some err]) @ (if started then [] else [None])
      in (\<lparr>h_Status = (if started \<and> pingErr = None then HealthOK else HealthDown),
           h_EngineStarted = started, h_BrokerReachable = (pingErr = None),
           h_BrokerLatency = pingEnd - pingStart,
           h_WorkersRegistered = engineRegistry_count w, h_Queues = queueNames,
           h_CheckedAt = checked, h_Errors = errors\<rparr>, w4))"

section \<open>Lemmas\<close>

lemma dedup_loop_remdups:
  "dedup_loop qs seen out = out @ rev (remdups (rev (filter (\<lambda>x. x \<notin> set seen) (map Name qs))))"
proof (induction qs seen out rule: dedup_loop.induct)
  case (2 q qs seen out)
  have "remdups (xs @ [x]) = remdups (filter (\<lambda>y. y \<noteq> x) xs) @ [x]" for xs and x :: string
    by (induction xs) auto
  moreover have "filter (\<lambda>y. y \<noteq> Name q) (rev (filter (\<lambda>x. x \<notin> set seen) (map Name qs))) =
      rev (filter (\<lambda>x. x \<noteq> Name q \<and> x \<notin> set seen) (map Name qs))"
    by (simp add: rev_filter conj_commute)
  ultimately show ?case using 2 by auto
qed simp

lemma newEngine_handler:
  "newEngine b cfg B w = (e, w') \<Longrightarrow>
   e_started e = False \<and> p_started (e_processor e) = False \<and> e_chain e = Some (p_chain (e_processor e)) \<and>
   middlewares (p_chain (e_processor e)) = [RecoveryMiddleware, LoggingMiddleware [], BreakerMiddleware (Some b)] \<and>
   p_handler (e_processor e) = p_chain (e_processor e) \<and>
   p_registry (e_processor e) = Some engineRegistry_GetWorker \<and> p_validator (e_processor e) = None"
  by (auto simp: newEngine_def NewProcessor_def NewChain_def Let_def)

text \<open>A panic under a recovery middleware at the outer end of the chain cannot escape.\<close>

lemma processJob_outer_recovery:
  assumes "middlewares (p_handler p) = RecoveryMiddleware # ms"
  shows "\<exists>w'. processJob B perform p r q w = Some w'"
proof -
  obtain start ctx w1 where st: "startJob p r q w = (start, ctx, w1)" by (cases "startJob p r q w")
  have "run_handler perform p = RecoveryMiddleware (foldr (\<lambda>m h. m h) ms (execute perform p))"
    using assms by (simp add: run_handler_def Wrap_eq)
  then obtain err w2 where "run_handler perform p ctx r w1 = (Returned err, w2)"
    using Recovery_returns by metis
  from processJob_eq [OF st this] show ?thesis by simp
qed

section \<open>Properties\<close>

text \<open>
  C34: an engine survives every panic. Whatever middlewares the program adds before the start and
  whatever its workers do, a run of a job by the started engine returns.
\<close>

theorem engine_survives_panics:
  assumes "newEngine b cfg B w0 = (e0, w1)" "engine_Use ms e0 = (None, e1)"
    and "engine_Start e1 w2 = (Inr gs, e2, w3)"
  shows "\<exists>w'. processJob B perform (e_processor e2) r q w = Some w'"
proof -
  note n = newEngine_handler [OF assms(1)]
  have e1: "p_chain (e_processor e1) = Use ms (p_chain (e_processor e0))" "e_started e1 = False"
    "p_started (e_processor e1) = False"
    using assms(2) n by (auto simp: engine_Use_def)
  have "p_handler (e_processor e2) = p_chain (e_processor e1)"
    using assms(3) e1(2,3) by (auto simp: engine_Start_def Start_def Let_def)
  then have "middlewares (p_handler (e_processor e2)) =
      RecoveryMiddleware # [LoggingMiddleware [], BreakerMiddleware (Some b)] @ ms"
    using e1(1) n by (simp add: Use_def)
  then show ?thesis by (rule processJob_outer_recovery)
qed

theorem engine_survives_panics_witness:
  "\<exists>w'. processJob memB (\<lambda>_ _ _ w. (Panicked, w))
     (e_processor (fst (snd (engine_Start (snd (engine_Use [\<lambda>h _ _ w. (Panicked, w)]
        (fst (newEngine 0 demo_config memB demo_leased)))) demo_leased)))) 0 ''default'' demo_leased = Some w'"
  by (rule engine_survives_panics [of 0 demo_config memB demo_leased
        "fst (newEngine 0 demo_config memB demo_leased)" "snd (newEngine 0 demo_config memB demo_leased)"
        "[\<lambda>h _ _ w. (Panicked, w)]"
        "snd (engine_Use [\<lambda>h _ _ w. (Panicked, w)] (fst (newEngine 0 demo_config memB demo_leased)))"
        demo_leased
        "projr (fst (engine_Start (snd (engine_Use [\<lambda>h _ _ w. (Panicked, w)]
          (fst (newEngine 0 demo_config memB demo_leased)))) demo_leased))" _
        "snd (snd (engine_Start (snd (engine_Use [\<lambda>h _ _ w. (Panicked, w)]
          (fst (newEngine 0 demo_config memB demo_leased)))) demo_leased))"])
    (simp_all add: newEngine_def engine_Use_def engine_Start_def Start_def NewProcessor_def Let_def)

text \<open>
  C35: a job is handed to the worker the engine has registered for its class, with the job's
  arguments, before any process-wide worker; and only after the validator accepted it. A rejected
  job reaches no worker.
\<close>

theorem engine_runs_registered_worker:
  assumes "newEngine b cfg B w0 = (e0, w1)" "engine_SetValidator (Some v) e0 = (None, e)"
    and "cls \<noteq> []" "Class (heap w r) = cls" "w' = Register cls (Some wk) w"
  shows "execute perform (e_processor e) ctx r w' =
    (case v (heap w r) of
       Some err \<Rightarrow> (Returned (Some (Wrapf ''validation failed'' err)), w')
     | None \<Rightarrow> perform wk ctx (args_of (heap w r)) w')"
proof -
  note n = newEngine_handler [OF assms(1)]
  have p: "p_validator (e_processor e) = Some v" "p_registry (e_processor e) = Some engineRegistry_GetWorker"
    using assms(2) n by (auto simp: engine_SetValidator_def SetValidator_def Let_def)
  have "engineRegistry_GetWorker cls w' = (Some wk, None)" "heap w' = heap w"
    using assms(3,5)
    by (simp_all add: engineRegistry_GetWorker_def Register_def engineRegistry_register_def update_conv')
  then show ?thesis using p assms(4) by (simp add: execute_def Let_def split: option.split)
qed

lemma redactor_sel:
  "p_registry (p\<lparr>p_redactor := rd\<rparr>) = p_registry p" "p_validator (p\<lparr>p_redactor := rd\<rparr>) = p_validator p"
  "p_events (p\<lparr>p_redactor := rd\<rparr>) = p_events p" "p_handler (p\<lparr>p_redactor := rd\<rparr>) = p_handler p"
  "p_cfg (p\<lparr>p_redactor := rd\<rparr>) = p_cfg p"
  by simp_all

lemma execute_redactor: "execute perform (p\<lparr>p_redactor := rd\<rparr>) = execute perform p"
  by (intro ext) (simp only: execute_def redactor_sel)

lemma emitEvent_redactor: "emitEvent (p\<lparr>p_redactor := rd\<rparr>) = emitEvent p"
  by (intro ext) (simp only: emitEvent_def redactor_sel)

text \<open>
  C37: the redactor set on an engine or its processor has no effect on the execution of jobs: every
  run, with all its log lines, is the same as without the setting.
\<close>

theorem engine_redactor_unused:
  assumes "engine_SetRedactor (Some rd) e = (None, e')"
  shows "processJob B perform (e_processor e') r q w = processJob B perform (e_processor e) r q w"
proof -
  have e': "e_processor e' = (e_processor e)\<lparr>p_redactor := Some rd\<rparr>"
    using assms by (auto simp: engine_SetRedactor_def SetRedactor_def split: if_splits prod.splits)
  show ?thesis
    unfolding e' processJob_def startJob_def finishJob_def handleFailure_def run_handler_def
    by (simp only: execute_redactor emitEvent_redactor redactor_sel)
qed

theorem engine_redactor_unused_witness:
  "processJob memB fails (e_processor (snd (engine_SetRedactor (Some MaskingRedactor)
      (fst (newEngine 0 demo_config memB demo_leased))))) 0 ''default'' demo_leased =
   processJob memB fails (e_processor (fst (newEngine 0 demo_config memB demo_leased))) 0 ''default'' demo_leased"
  by (rule engine_redactor_unused [of MaskingRedactor])
    (simp add: newEngine_def engine_SetRedactor_def SetRedactor_def NewProcessor_def Let_def)

text \<open>
  C36: the lifecycle of an engine. Once started, a second \<open>Start\<close>, \<open>Use\<close>,
  \<open>SetRedactor\<close>, \<open>SetValidator\<close> and \<open>SetMetricsHandler\<close> answer with an error and leave the
  engine as it is; \<open>Stop\<close> takes effect once, and afterwards the in-memory broker refuses jobs.
\<close>

theorem engine_lifecycle:
  assumes "engine_Start e w = (Inr gs, e1, w1)" "engine_Stop_begin e1 w2 = (True, e2, w3)"
    and "e_broker e = memB"
  shows "engine_Start e1 w' = (Inl EngineAlreadyStarted, e1, w') \<and>
    engine_Use ms e1 = (Some (MustBeBeforeStart ''Use''), e1) \<and>
    engine_SetRedactor rd e1 = (Some (MustBeBeforeStart ''SetRedactor''), e1) \<and>
    engine_SetValidator v e1 = (Some (MustBeBeforeStart ''SetValidator''), e1) \<and>
    engine_SetMetricsHandler h e1 = (Some (MustBeBeforeStart ''SetMetricsHandler''), e1) \<and>
    cancelled w3 \<and> engine_Stop_begin e2 w' = (False, e2, w') \<and>
    fst (mem_Enqueue Background q r (engine_Stop_end e2 w4)) = Some BrokerClosed"
proof -
  have e1: "e_started e1" "p_started (e_processor e1)" "e_broker e1 = memB"
    using assms(1,3) by (auto simp: engine_Start_def Start_def Let_def split: if_splits)
  have e2: "e_stopped e2" "cancelled w3" "e_broker e2 = memB"
    using assms(2) e1(3) by (auto simp: engine_Stop_begin_def Stop_begin_def split: if_splits)
  have "engine_SetMetricsHandler h e1 = (Some (MustBeBeforeStart ''SetMetricsHandler''), e1)"
    using e1 by (simp add: engine_SetMetricsHandler_def SetMetricsHandler_def)
  moreover have "fst (mem_Enqueue Background q r (engine_Stop_end e2 w4)) = Some BrokerClosed"
    using e2 by (simp add: engine_Stop_end_def memB_def mem_Close_def mem_Enqueue_def)
  ultimately show ?thesis
    using e1 e2 by (simp add: engine_Start_def engine_Use_def engine_SetRedactor_def engine_SetValidator_def
        engine_Stop_begin_def)
qed

theorem engine_lifecycle_witness:
  "\<exists>e1 :: InMemoryBroker Engine. engine_Use [] e1 = (Some (MustBeBeforeStart ''Use''), e1) \<and>
     (\<exists>e2. fst (mem_Enqueue Background ''default'' 0 (engine_Stop_end e2 demo_leased)) = Some BrokerClosed \<and>
        e_stopped e2)"
proof -
  obtain e1 gs w1 where s: "engine_Start (fst (newEngine 0 demo_config memB demo_leased)) demo_leased = (Inr gs, e1, w1)"
    by (simp add: engine_Start_def newEngine_def NewProcessor_def Start_def Let_def)
  then have "\<not> e_stopped e1" by (auto simp: engine_Start_def newEngine_def NewProcessor_def Start_def Let_def)
  then obtain e2 w3 where t: "engine_Stop_begin e1 demo_leased = (True, e2, w3)" "e_stopped e2"
    by (auto simp: engine_Stop_begin_def)
  have "e_broker (fst (newEngine 0 demo_config memB demo_leased)) = memB" by (simp add: newEngine_def Let_def)
  from engine_lifecycle [OF s t(1) this] t(2) show ?thesis by blast
qed

text \<open>
  The health report is \<open>ok\<close> exactly when the engine has been started and the broker answers
  the ping, otherwise \<open>down\<close> with the reasons; it lists every configured queue once, in order of first
  appearance.
\<close>

lemma health_report:
  assumes "Health ctx e w = (h, w')" "bk_Ping (e_broker e) ctx (snd (time_Now (snd (time_Now w)))) = (err, w1)"
  shows "(h_Status h = HealthOK \<longleftrightarrow> e_started e \<and> err = None) \<and>
    (h_Status h = HealthDown \<longleftrightarrow> h_Errors h \<noteq> []) \<and>
    h_Errors h = (case err of None \<Rightarrow> [] | Some x \<Rightarrow> [Some x]) @ (if e_started e then [] else [None]) \<and>
    h_Queues h = rev (remdups (rev (map Name (Queues (e_cfg e))))) \<and>
    distinct (h_Queues h) \<and> set (h_Queues h) = Name ` set (Queues (e_cfg e))"
  using assms
  by (auto simp: Health_def Let_def dedupQueueNames_def dedup_loop_remdups HealthOK_def HealthDown_def
      split: option.splits prod.splits if_splits)

lemma health_report_witness:
  "h_Status (fst (Health Background (fst (newEngine 0 demo_weights memB demo_leased)) demo_leased)) = HealthDown"
proof -
  let ?e = "fst (newEngine 0 demo_weights memB demo_leased)"
  let ?w = "snd (time_Now (snd (time_Now demo_leased)))"
  have ping: "bk_Ping (e_broker ?e) Background ?w = (None, ?w)"
    by (simp add: newEngine_def Let_def memB_def mem_Ping_def demo_leased_def NewInMemoryBroker_def)
  from health_report [OF prod.collapse [symmetric] ping] show ?thesis
    by (simp add: newEngine_def Let_def)
qed

theorem engine_runs_registered_worker_witness:
  "execute fails (e_processor (snd (engine_SetValidator (Some (MaxArgsCount 3))
       (fst (newEngine 0 demo_config memB demo_leased))))) Background 0
     (Register ''Mail'' (Some 7) demo_leased) =
   (Returned (Some BrokerClosed), Register ''Mail'' (Some 7) demo_leased)"
proof -
  let ?e0 = "fst (newEngine 0 demo_config memB demo_leased)"
  have "engine_SetValidator (Some (MaxArgsCount 3)) ?e0 = (None, snd (engine_SetValidator (Some (MaxArgsCount 3)) ?e0))"
    by (simp add: newEngine_def engine_SetValidator_def SetValidator_def NewProcessor_def Let_def)
  from engine_runs_registered_worker [OF prod.collapse [symmetric] this, of "''Mail''" demo_leased 0 _ 7 fails Background]
  show ?thesis by (simp add: demo_leased_inv MaxArgsCount_def args_of_def demo_job_def NewJob_def)
qed

end
