(* ===== verification/Accounting.thy ===== *)
theory Accounting
  imports Job_Safety
begin

text \<open>
  No silent loss. \<^verbatim>\<open>Job_Safety\<close> shows that a broker whose calls succeed loses no job; here the
  calls may fail in any way the contract allows, a lost reply of Redis included. Whatever fails while
  the processor settles a run, moves retries or reaps leases, a job the broker no longer holds has
  been reported, under its identifier, by one of the log lines \<open>loss_messages\<close>. The exception is a
  failed reap, whose log line names no job: a job whose lease it took is lost without a trace.
\<close>

text \<open>The identifiers of the jobs reported between two worlds.\<close>

fun reports :: "string \<Rightarrow> level \<times> string \<times> (string \<times> logval) list \<Rightarrow> bool" where
  "reports jid (l, m, k) \<longleftrightarrow> loss_line jid m k"

definition reported :: "'b world \<Rightarrow> 'b world \<Rightarrow> string set" where
  "reported w w' = {jid. \<exists>x \<in> set (drop (length (logs w)) (logs w')). reports jid x}"

lemma reported_then: "same_ids v w \<Longrightarrow> reported u v \<subseteq> reported u w"
  unfolding reported_def same_ids_def prefix_def by (auto simp: drop_append)

lemma reported_after: "same_ids u v \<Longrightarrow> same_ids v w \<Longrightarrow> reported v w \<subseteq> reported u w"
  unfolding reported_def same_ids_def prefix_def by (auto simp: drop_append)

lemma reported_line: "loss_line jid m k \<Longrightarrow> jid \<in> reported w (log_line l m k w)"
  by (auto simp: reported_def)

text \<open>What the broker holds without a lease, out of the reach of an \<open>Ack\<close>.\<close>

definition at_rest :: "places \<Rightarrow> string set" where
  "at_rest p = pending p \<union> retrying p \<union> buried p"

lemma held_rest: "held p = at_rest p \<union> leased p"
  by (auto simp: held_def at_rest_def)

lemma places_le_rest: "places_le p q \<Longrightarrow> at_rest p \<subseteq> at_rest q \<and> leased p \<subseteq> leased q"
  by (auto simp: places_le_def at_rest_def)

lemma unlease_le_rest:
  "unlease_le jid p q \<Longrightarrow> at_rest p \<subseteq> at_rest q \<and> leased p \<subseteq> insert jid (leased q)"
  by (auto simp: unlease_le_def places_le_def at_rest_def)

lemma log_err_reported: "loss_line jid m k \<Longrightarrow> e \<noteq> None \<Longrightarrow> jid \<in> reported w (log_err l m k (e, w))"
  by (auto simp: log_err_def reported_def loss_line_def)

text \<open>Two steps in a row report what each of them does.\<close>

lemma reported_chain:
  assumes "same_ids a b" "same_ids b c" "jid \<in> reported a b \<union> reported b c"
  shows "jid \<in> reported a c"
  using assms reported_then [of b c a] reported_after [of a b c] by blast

lemma subset_chain:
  "A \<subseteq> B \<union> C \<Longrightarrow> B \<subseteq> D \<Longrightarrow> P \<subseteq> D \<Longrightarrow> R \<subseteq> R' \<Longrightarrow> C \<subseteq> P \<union> R \<Longrightarrow> A \<subseteq> D \<union> R'"
  by blast

context broker_contract
begin

lemma quiet_log_err_step:
  assumes "invar w1" "same_ids w w1" "w2 = log_err l m k (e, w1)"
  shows "invar w2 \<and> same_ids w w2 \<and> where_is w2 = where_is w1"
proof -
  have "quiet w1 w2" using quiet_log_err [of "(e, w1)" l m k] assms(3) by simp
  from quiet_step [OF this assms(1)] assms(2) show ?thesis using same_ids_trans by blast
qed

lemma add_accounted:
  assumes "invar w" "r < next_ref w" "loss_line (JID (heap w r)) m k"
    and "w2 = log_err l m k (bk_AddToRetry B r t w) \<or> w2 = log_err l m k (bk_AddToDead B r w)"
  shows "invar w2 \<and> same_ids w w2 \<and> places_le (where_is w) (where_is w2) \<and>
    JID (heap w r) \<in> retrying (where_is w2) \<union> buried (where_is w2) \<union> reported w w2"
proof -
  obtain e w1 where w1: "invar w1" "same_ids w w1" "w2 = log_err l m k (e, w1)"
    "where_is w1 = put_retrying (JID (heap w r)) (where_is w) \<or>
     where_is w1 = put_buried (JID (heap w r)) (where_is w) \<or> e \<noteq> None \<and> where_is w1 = where_is w"
    using assms(4) add_retry_law [OF assms(1,2)] add_dead_law [OF assms(1,2)]
    by (metis prod.collapse)
  have "JID (heap w r) \<in> reported w w2" if "e \<noteq> None"
    using log_err_reported [OF assms(3) that, of w1] w1 reported_after quiet_log_err_step [OF w1(1) same_ids_refl w1(3)]
    by blast
  with quiet_log_err_step [OF w1(1-3)] w1(4) show ?thesis by (auto simp: places_le_def)
qed

lemma store_failure_accounted:
  assumes "invar w" "r < next_ref w" and st: "store_failure B p r e w = (msg, w')"
  shows "invar w' \<and> same_ids w w' \<and> places_le (where_is w) (where_is w') \<and>
    JID (heap w r) \<in> retrying (where_is w') \<union> buried (where_is w') \<union> reported w w'"
proof -
  have w': "snd (store_failure B p r e w) = w'" using st by simp
  obtain w1 l m k t where sh: "quiet w w1" "w' = log_err l m k (bk_AddToRetry B r t w1) \<or> w' = log_err l m k (bk_AddToDead B r w1)"
    "loss_line (JID (heap w r)) m k"
    by (rule store_failure_shape [of w B p r e, unfolded w'])
  have w1: "invar w1" "same_ids w w1" "where_is w1 = where_is w" "r < next_ref w1"
    "JID (heap w1 r) = JID (heap w r)"
    using quiet_step [OF sh(1) assms(1)] assms(2) sh(1) by (auto simp: quiet_JID quiet_def)
  from add_accounted [OF w1(1,4) sh(3) [folded w1(5)] sh(2)] w1 same_ids_trans [OF w1(2)] reported_after [OF w1(2), of w']
  show ?thesis by auto
qed

lemma ack_job_step:
  assumes "invar w" "r < next_ref w" and "w' = ack_job B r msg w"
  shows "invar w' \<and> same_ids w w' \<and> unlease_le (JID (heap w r)) (where_is w) (where_is w')"
  using ack_step [OF assms(1,2)] by (simp add: assms(3) ack_job_def)

lemma record_outcome_step:
  assumes "invar w" "r < next_ref w" and w': "w' = record_outcome B p r q d err w"
  shows "invar w' \<and> same_ids w w' \<and> where_is w' = where_is w"
proof -
  have q: "quiet w (emitEvent p ev (log_line l m k (upd_job r (\<lambda>j. j\<lparr>State := st\<rparr>) w)))" for ev l m k st
    by (rule quiet_trans [OF quiet_trans [OF quiet_set_State quiet_log_line] quiet_emitEvent])
  show ?thesis
  proof (cases err)
    case None
    have eq: "w' = (let w3 = emitEvent p (mk_event EventJobSucceeded r q d None) (log_line Info ''job processed''
        (jid_field (upd_job r (\<lambda>j. j\<lparr>State := JobStateSuccess\<rparr>) w) r @
          [(''class'', LStr (Class (heap (upd_job r (\<lambda>j. j\<lparr>State := JobStateSuccess\<rparr>) w) r))), (''queue'', LStr q), (''dur'', LDur d)])
        (upd_job r (\<lambda>j. j\<lparr>State := JobStateSuccess\<rparr>) w))
      in log_err Warn ''record success stat failed'' (jid_field w3 r) (bk_RecordSuccess B r w3))"
      by (simp only: w' None record_outcome_def option.case Let_def)
    from quiet_then_record [OF assms(1,2) q disjI1 [OF refl] eq [unfolded Let_def]] show ?thesis by blast
  next
    case (Some e)
    have eq: "w' = (let w3 = emitEvent p (mk_event EventJobFailed r q d (Some e)) (log_line Error ''job failed''
        (jid_field (upd_job r (\<lambda>j. j\<lparr>State := JobStateFailed\<rparr>) w) r @
          [(''class'', LStr (Class (heap (upd_job r (\<lambda>j. j\<lparr>State := JobStateFailed\<rparr>) w) r))), (''queue'', LStr q),
           (''err'', LErr e), (''dur'', LDur d)])
        (upd_job r (\<lambda>j. j\<lparr>State := JobStateFailed\<rparr>) w))
      in log_err Warn ''record failure stat failed'' (jid_field w3 r) (bk_RecordFailure B r w3))"
      by (simp only: w' Some record_outcome_def option.case Let_def)
    from quiet_then_record [OF assms(1,2) q disjI2 [OF refl] eq [unfolded Let_def]] show ?thesis by blast
  qed
qed

lemma handleFailure_accounted:
  assumes "invar w" "r < next_ref w" and w': "w' = handleFailure B p r e w"
  shows "invar w' \<and> same_ids w w' \<and> unlease_le (JID (heap w r)) (where_is w) (where_is w') \<and>
    JID (heap w r) \<in> retrying (where_is w') \<union> buried (where_is w') \<union> reported w w'"
proof -
  obtain msg w2 where st: "store_failure B p r e w = (msg, w2)" by fastforce
  note w2 = store_failure_accounted [OF assms(1,2) st]
  then have r2: "r < next_ref w2" "JID (heap w2 r) = JID (heap w r)"
    using assms(2) same_ids_valid same_ids_JID by blast+
  have w3: "invar w' \<and> same_ids w2 w' \<and> unlease_le (JID (heap w r)) (where_is w2) (where_is w')"
    using ack_job_step [of w2 r w' msg] w2 r2 st by (simp add: w' handleFailure_split)
  have "JID (heap w r) \<in> retrying (where_is w') \<union> buried (where_is w')"
    if "JID (heap w r) \<in> retrying (where_is w2) \<union> buried (where_is w2)"
    using that w3 by (auto simp: unlease_le_def places_le_def)
  then show ?thesis
    using w2 w3 unlease_le_trans1 [of "where_is w" "where_is w2"] same_ids_trans [of w w2 w'] reported_then [of w2 w' w]
    by auto
qed

lemma finishJob_accounted:
  assumes "invar w" "r < next_ref w" and w': "w' = finishJob B p r q d err w"
  shows "invar w' \<and> same_ids w w' \<and> unlease_le (JID (heap w r)) (where_is w) (where_is w') \<and>
    (err = None \<or> JID (heap w r) \<in> retrying (where_is w') \<union> buried (where_is w') \<union> reported w w')"
proof -
  let ?w1 = "record_outcome B p r q d err w"
  have rec: "invar ?w1" "same_ids w ?w1" "where_is ?w1 = where_is w"
    using record_outcome_step [OF assms(1,2) refl] by blast+
  then have r1: "r < next_ref ?w1" "JID (heap ?w1 r) = JID (heap w r)"
    using assms(2) same_ids_valid same_ids_JID by blast+
  show ?thesis
  proof (cases err)
    case None
    with ack_job_step [OF rec(1) r1(1), of w'] r1 rec same_ids_trans [OF rec(2)] show ?thesis
      by (auto simp: w' finishJob_split)
  next
    case (Some e)
    with handleFailure_accounted [OF rec(1) r1(1), of w' p e] r1 rec same_ids_trans [OF rec(2), of w']
      reported_after [OF rec(2), of w'] show ?thesis
      by (auto simp: w' finishJob_split)
  qed
qed

text \<open>The shutdown branch of the fetcher, call by call.\<close>

lemma shutdown_enqueue_accounted:
  assumes "invar w" "r < next_ref w" and en: "shutdown_enqueue B r q w = (f, w')"
  shows "invar w' \<and> same_ids w w' \<and> places_le (where_is w) (where_is w') \<and>
    (f = FLeave r \<and> JID (heap w r) \<in> pending (where_is w') \<or> f = FRescue r)"
proof -
  let ?w1 = "upd_job r (\<lambda>j. j\<lparr>State := JobStatePending\<rparr>) w"
  have w1: "invar ?w1" "same_ids w ?w1" "where_is ?w1 = where_is w" "r < next_ref ?w1" "JID (heap ?w1 r) = JID (heap w r)"
    using quiet_step [OF quiet_set_State assms(1)] assms(2) by auto
  obtain e w2 where enq: "bk_Enqueue B Background q r ?w1 = (e, w2)" by (cases "bk_Enqueue B Background q r ?w1")
  note law = enqueue_law [OF w1(1,4) enq]
  have w2: "invar w2" "same_ids w w2" "places_le (where_is w) (where_is w2)"
    using law w1 same_ids_trans [OF w1(2)] by (auto simp: places_le_def)
  have f: "quiet w2 w' \<and> f = (if e = None then FLeave r else FRescue r)"
    using en enq by (cases e) (auto simp: shutdown_enqueue_def Let_def)
  have w': "invar w' \<and> same_ids w2 w' \<and> where_is w' = where_is w2" using quiet_step [of w2 w'] f w2(1) by blast
  have "JID (heap w r) \<in> pending (where_is w2)" if "e = None" using law that w1(5) by auto
  with f w' w2 same_ids_trans [OF w2(2)] show ?thesis by auto
qed

lemma shutdown_rescue_accounted:
  assumes "invar w" "r < next_ref w" and w': "w' = shutdown_rescue B r w"
  shows "invar w' \<and> same_ids w w' \<and> places_le (where_is w) (where_is w') \<and>
    JID (heap w r) \<in> retrying (where_is w') \<union> buried (where_is w') \<union> reported w w'"
proof -
  let ?w1 = "snd (time_Now w)"
  have w1: "invar ?w1" "same_ids w ?w1" "where_is ?w1 = where_is w" "r < next_ref ?w1" "JID (heap ?w1 r) = JID (heap w r)"
    using quiet_step [OF quiet_time_Now assms(1)] assms(2) by auto
  have eq: "w' = log_err Error ''failed to add job to retry on shutdown, job may be lost'' (jid_field ?w1 r)
      (bk_AddToRetry B r (clock w 0) ?w1)"
    by (simp add: w' shutdown_rescue_def case_prod_beta)
  have "loss_line (JID (heap ?w1 r)) ''failed to add job to retry on shutdown, job may be lost'' (jid_field ?w1 r)"
    by (simp add: loss_line_def loss_messages_def)
  from add_accounted [OF w1(1,4) this disjI1 [OF eq]] w1 same_ids_trans [OF w1(2)] reported_after [OF w1(2), of w']
  show ?thesis by auto
qed

lemma processJob_accounted:
  assumes "invar w" "r < next_ref w"
    and h: "safe_handler invar where_is (run_handler perform p)"
    and start: "startJob p r q w = (start, ctx, w1)"
    and run: "run_handler perform p ctx r w1 = (Returned err, w2)"
    and w': "processJob B perform p r q w = Some w'"
  shows "invar w' \<and> same_ids w w' \<and> unlease_le (JID (heap w r)) (where_is w) (where_is w') \<and>
    (err = None \<or> JID (heap w r) \<in> retrying (where_is w') \<union> buried (where_is w') \<union> reported w w')"
proof -
  let ?w3 = "snd (time_Now w2)"
  have w'_eq: "w' = finishJob B p r q (clock w2 0 - start) err ?w3"
    using w' processJob_eq [OF start run, of B] by simp
  have w3: "invar ?w3 \<and> same_ids w ?w3 \<and> places_le (where_is w) (where_is ?w3)"
    using safe_after [OF h assms(1,2) startJob_quiet(1) [OF start] run quiet_time_Now] .
  then have r3: "r < next_ref ?w3" "JID (heap ?w3 r) = JID (heap w r)"
    using assms(2) same_ids_valid same_ids_JID by blast+
  from finishJob_accounted [OF conjunct1 [OF w3] r3(1) w'_eq] w3 r3(2) show ?thesis
    using same_ids_trans [of w ?w3 w'] unlease_le_trans1 [of "where_is w" "where_is ?w3"]
      reported_after [of w ?w3 w'] by auto
qed

text \<open>A turn of the retry loop.\<close>

lemma retry_again_accounted:
  assumes "invar w" "r < next_ref w" and w': "w' = retry_again B r err w"
  shows "invar w' \<and> same_ids w w' \<and> places_le (where_is w) (where_is w') \<and>
    JID (heap w r) \<in> retrying (where_is w') \<union> buried (where_is w') \<union> reported w w'"
proof -
  obtain w1 l m k t where sh: "quiet w w1" "loss_line (JID (heap w r)) m k"
    "w' = log_err l m k (bk_AddToRetry B r t w1) \<or> w' = log_err l m k (bk_AddToDead B r w1)"
    unfolding w' using retry_again_shape [of w B r err] by metis
  have w1: "invar w1" "same_ids w w1" "where_is w1 = where_is w" "r < next_ref w1"
      "JID (heap w1 r) = JID (heap w r)"
    using quiet_step [OF sh(1) assms(1)] sh(1) assms(2) by (auto simp: quiet_JID quiet_def)
  from add_accounted [OF w1(1,4) sh(2) [folded w1(5)] sh(3)] w1 same_ids_trans [OF w1(2)] reported_after [OF w1(2), of w']
  show ?thesis by auto
qed

lemma retry_take_accounted:
  assumes "invar w" "r < next_ref w" and take: "retry_take B p r w = (taken, w')"
  shows "invar w' \<and> same_ids w w' \<and> leased (where_is w) \<subseteq> leased (where_is w') \<and>
    at_rest (where_is w) \<subseteq> at_rest (where_is w') \<union> (if taken then {JID (heap w r)} else reported w w')"
proof (cases "Queue (heap w r) \<in> set (p_queueSet p)")
  case False
  then have "quiet w w'" "\<not> taken" using take unfolding retry_take_def by auto
  with quiet_step [OF this(1) assms(1)] show ?thesis by simp
next
  case known: True
  obtain e w1 where rem: "bk_RemoveFromRetry B r w = (e, w1)" by (cases "bk_RemoveFromRetry B r w")
  from remove_retry_law [OF assms(1,2) rem]
  have w1: "invar w1" "same_ids w w1"
    and le: "places_le ((where_is w)\<lparr>retrying := retrying (where_is w) - {JID (heap w r)}\<rparr>) (where_is w1)"
    by auto
  have up: "at_rest (where_is w) \<subseteq> insert (JID (heap w r)) (at_rest (where_is w1))" "leased (where_is w) \<subseteq> leased (where_is w1)"
    using le by (auto simp: places_le_def at_rest_def)
  show ?thesis
  proof (cases e)
    case None
    then have "w' = w1" "taken" using take known rem by (auto simp: retry_take_def)
    with w1 up show ?thesis by simp
  next
    case (Some err)
    then have q: "quiet w1 w'" "\<not> taken" and rep: "JID (heap w r) \<in> reported w1 w'"
      using take known rem same_ids_JID [OF w1(2) assms(2)]
      by (auto simp: retry_take_def reported_line loss_line_def loss_messages_def)
    with quiet_step [OF q(1) w1(1)] w1 up show ?thesis
      using same_ids_trans [of w w1 w'] reported_after [of w w1 w'] by auto
  qed
qed

lemma retry_enqueue_accounted:
  assumes "invar w" "r < next_ref w" and en: "retry_enqueue B r w = (e, w')"
  shows "invar w' \<and> same_ids w w' \<and> places_le (where_is w) (where_is w') \<and>
    (e = None \<longrightarrow> JID (heap w r) \<in> pending (where_is w'))"
proof -
  let ?w1 = "upd_job r (\<lambda>j. j\<lparr>State := JobStatePending\<rparr>) w"
  have w1: "invar ?w1" "same_ids w ?w1" "where_is ?w1 = where_is w" "r < next_ref ?w1" "JID (heap ?w1 r) = JID (heap w r)"
    using quiet_step [OF quiet_set_State assms(1)] assms(2) by auto
  have enq: "bk_Enqueue B ProcCtx (Queue (heap ?w1 r)) r ?w1 = (e, w')"
    using en by (simp add: retry_enqueue_def Let_def)
  from enqueue_law [OF w1(1,4) enq] w1 same_ids_trans [OF w1(2)] show ?thesis by (auto simp: places_le_def)
qed

lemma retry_put_accounted:
  assumes "invar w" "r < next_ref w" and w': "w' = retry_put B r w"
  shows "invar w' \<and> same_ids w w' \<and> places_le (where_is w) (where_is w') \<and>
    JID (heap w r) \<in> held (where_is w') \<union> reported w w'"
proof -
  obtain e w2 where en: "retry_enqueue B r w = (e, w2)" by fastforce
  note w2 = retry_enqueue_accounted [OF assms(1,2) en]
  then have r2: "r < next_ref w2" "JID (heap w2 r) = JID (heap w r)"
    using assms(2) same_ids_valid same_ids_JID by blast+
  show ?thesis
  proof (cases e)
    case None
    with w2 en show ?thesis by (auto simp: w' retry_put_split held_def)
  next
    case (Some err)
    then have w'_eq: "w' = retry_again B r err w2" using en by (simp add: w' retry_put_split)
    from retry_again_accounted [OF _ r2(1) w'_eq] r2(2) w2 show ?thesis
      using same_ids_trans [of w w2 w'] places_le_trans [of "where_is w" "where_is w2"] reported_after [of w w2 w']
      by (auto simp: held_def)
  qed
qed

lemma retry_one_accounted:
  assumes "invar w" "r < next_ref w" and w': "w' = retry_one B p r w"
  shows "invar w' \<and> same_ids w w' \<and> held (where_is w) \<subseteq> held (where_is w') \<union> reported w w'"
proof -
  obtain taken w1 where t: "retry_take B p r w = (taken, w1)" by fastforce
  have take: "invar w1 \<and> same_ids w w1 \<and>
      held (where_is w) \<subseteq> held (where_is w1) \<union> (if taken then {JID (heap w r)} else reported w w1)"
    using retry_take_accounted [OF assms(1,2) t] by (auto simp: held_rest)
  show ?thesis
  proof (cases taken)
    case False
    with take t show ?thesis by (simp add: w' retry_one_split)
  next
    case True
    have eq: "w' = retry_put B r w1" using True t by (simp add: w' retry_one_split)
    have r1: "r < next_ref w1" "JID (heap w1 r) = JID (heap w r)"
      using take assms(2) same_ids_valid same_ids_JID by blast+
    note put = retry_put_accounted [OF conjunct1 [OF take] r1(1) eq]
    have "held (where_is w1) \<subseteq> held (where_is w')" using put places_le_held by blast
    with put take True r1(2) show ?thesis
      using same_ids_trans [of w w1 w'] reported_after [of w w1 w'] by auto
  qed
qed

text \<open>Two steps in a row that account for their jobs.\<close>

lemma accounted_trans:
  assumes "invar b \<and> same_ids a b \<and> held (where_is a) \<subseteq> held (where_is b) \<union> reported a b"
    and "invar c \<and> same_ids b c \<and> held (where_is b) \<subseteq> held (where_is c) \<union> reported b c"
  shows "invar c \<and> same_ids a c \<and> held (where_is a) \<subseteq> held (where_is c) \<union> reported a c"
  using assms same_ids_trans [of a b c] reported_then [of b c a] reported_after [of a b c] by blast

lemma fold_accounted:
  assumes step: "\<And>w r. invar w \<Longrightarrow> r < next_ref w \<Longrightarrow>
      invar (f r w) \<and> same_ids w (f r w) \<and> held (where_is w) \<subseteq> held (where_is (f r w)) \<union> reported w (f r w)"
    and "invar w" "\<forall>r \<in> set rs. r < next_ref w"
  shows "invar (fold f rs w) \<and> same_ids w (fold f rs w) \<and>
    held (where_is w) \<subseteq> held (where_is (fold f rs w)) \<union> reported w (fold f rs w)"
  using assms(2,3)
proof (induction rs arbitrary: w)
  case (Cons r rs)
  have s: "invar (f r w) \<and> same_ids w (f r w) \<and>
      held (where_is w) \<subseteq> held (where_is (f r w)) \<union> reported w (f r w)"
    using step Cons.prems by simp
  with Cons have "invar (fold f rs (f r w)) \<and> same_ids (f r w) (fold f rs (f r w)) \<and>
      held (where_is (f r w)) \<subseteq> held (where_is (fold f rs (f r w))) \<union> reported (f r w) (fold f rs (f r w))"
    by (intro Cons.IH) (auto intro: same_ids_valid)
  from accounted_trans [OF s this] show ?case by simp
qed simp

lemma retry_tick_accounted:
  assumes "invar w" and w': "w' = retry_tick B p w"
  shows "invar w' \<and> same_ids w w' \<and> held (where_is w) \<subseteq> held (where_is w') \<union> reported w w'"
proof -
  obtain x w1 where g: "bk_GetRetryJobs B 100 w = (x, w1)" by (cases "bk_GetRetryJobs B 100 w")
  note law = get_retry_law [OF assms(1) g]
  have s1: "invar w1 \<and> same_ids w w1 \<and> held (where_is w) \<subseteq> held (where_is w1) \<union> reported w w1"
    using law by simp
  have "invar w' \<and> same_ids w1 w' \<and> held (where_is w1) \<subseteq> held (where_is w') \<union> reported w1 w'"
  proof (cases x)
    case (Inl e)
    then have "quiet w1 w'" unfolding w' retry_tick_def using g by simp
    from quiet_step [OF this] law show ?thesis by auto
  next
    case (Inr rs)
    then have "w' = fold (retry_one B p) rs w1" unfolding w' retry_tick_def using g by simp
    with fold_accounted [of "retry_one B p" w1 rs] retry_one_accounted [OF _ _ refl] law Inr show ?thesis by blast
  qed
  from accounted_trans [OF s1 this] show ?thesis .
qed

text \<open>
  A turn of the reaper: the jobs it took out of the leases are pending again, or reported; when the reap
  itself fails, nothing is known of the leases.
\<close>

lemma reap_one_accounted:
  assumes "invar w" "r < next_ref w" and w': "w' = reap_one B p r w"
  shows "invar w' \<and> same_ids w w' \<and> places_le (where_is w) (where_is w') \<and>
    JID (heap w r) \<in> pending (where_is w') \<union> reported w w'"
proof (cases "Queue (heap w r) \<in> set (p_queueSet p)")
  case False
  have "quiet w w'" "JID (heap w r) \<in> reported w w'" unfolding w' reap_one_def using False
    by (simp_all add: reported_line loss_line_def loss_messages_def)
  with quiet_step [of w w'] assms(1) show ?thesis by simp
next
  case True
  obtain l m k l' m' k' where eq: "w' = log_err l m k (bk_Enqueue B ProcCtx (Queue (heap w r)) r (log_line l' m' k' w))"
    and m: "loss_line (JID (heap w r)) m k"
    unfolding w' by (rule reap_one_shape [OF True])
  let ?w1 = "log_line l' m' k' w"
  have w1: "invar ?w1" "same_ids w ?w1" "where_is ?w1 = where_is w"
    using quiet_step [OF quiet_log_line assms(1)] by blast+
  obtain e w2 where enq: "bk_Enqueue B ProcCtx (Queue (heap w r)) r ?w1 = (e, w2)"
    by (cases "bk_Enqueue B ProcCtx (Queue (heap w r)) r ?w1")
  have "r < next_ref ?w1" using assms(2) by simp
  note law = enqueue_law [OF w1(1) this enq]
  have eq2: "w' = log_err l m k (e, w2)" using eq enq by simp
  have w2: "invar w2" "same_ids w w2" using law same_ids_trans [OF w1(2)] by blast+
  have "JID (heap w r) \<in> reported w w'" if "e \<noteq> None"
    using log_err_reported [OF m that, of w2 l] reported_after [OF w2(2)] eq2
      quiet_log_err_step [OF w2(1) same_ids_refl eq2] by blast
  with quiet_log_err_step [OF w2 eq2] law w1(3) show ?thesis by (auto simp: places_le_def)
qed

lemma reap_fold_accounted:
  assumes "invar w" "\<forall>r \<in> set rs. r < next_ref w" and "w' = fold (reap_one B p) rs w"
  shows "invar w' \<and> same_ids w w' \<and> places_le (where_is w) (where_is w') \<and>
    JID ` heap w ` set rs \<subseteq> pending (where_is w') \<union> reported w w'"
  using assms
proof (induction rs arbitrary: w)
  case (Cons r rs)
  let ?w1 = "reap_one B p r w"
  have step: "invar ?w1 \<and> same_ids w ?w1 \<and> places_le (where_is w) (where_is ?w1) \<and>
      JID (heap w r) \<in> pending (where_is ?w1) \<union> reported w ?w1"
    by (rule reap_one_accounted) (use Cons.prems in auto)
  then have rest: "invar w' \<and> same_ids ?w1 w' \<and> places_le (where_is ?w1) (where_is w') \<and>
      JID ` heap ?w1 ` set rs \<subseteq> pending (where_is w') \<union> reported ?w1 w'"
    using Cons.prems by (intro Cons.IH) (auto intro: same_ids_valid)
  have ids: "JID ` heap ?w1 ` set rs = JID ` heap w ` set rs"
    using step Cons.prems(2) by (force simp: image_iff same_ids_JID)
  have up: "pending (where_is ?w1) \<subseteq> pending (where_is w')" using rest by (simp add: places_le_def)
  have rep: "reported w ?w1 \<subseteq> reported w w'" "reported ?w1 w' \<subseteq> reported w w'"
    using step rest reported_then [of ?w1 w' w] reported_after [of w ?w1 w'] by auto
  have "JID (heap w r) \<in> pending (where_is w') \<union> reported w w'" using step up rep(1) by auto
  moreover have "JID ` heap w ` set rs \<subseteq> pending (where_is w') \<union> reported w w'"
    using subset_trans [OF _ Un_mono [OF order_refl rep(2)]] rest unfolding ids by blast
  ultimately show ?case
    using step rest same_ids_trans [of w ?w1 w'] places_le_trans [of "where_is w" "where_is ?w1"] by auto
qed simp

lemma reaper_tick_accounted:
  assumes "invar w" and w': "w' = reaper_tick B p w"
  shows "invar w' \<and> same_ids w w' \<and> held (where_is w) \<subseteq> held (where_is w') \<union> reported w w' \<union>
    (case bk_ReapOrphanedJobs B 0 w of (Inl e, _) \<Rightarrow> leased (where_is w) | _ \<Rightarrow> {})"
proof -
  obtain x w1 where g: "bk_ReapOrphanedJobs B 0 w = (x, w1)" by (cases "bk_ReapOrphanedJobs B 0 w")
  note law = reap_law [OF assms(1) g]
  show ?thesis
  proof (cases x)
    case (Inl e)
    then have w'_eq: "w' = log_line Warn ''reaper failed'' [(''err'', LErr e)] w1"
      unfolding w' reaper_tick_def using g by simp
    then have q: "quiet w1 w'" by simp
    have "held (where_is w) \<subseteq> held (where_is w1) \<union> leased (where_is w)"
      using law Inl by (auto simp: held_def places_le_def)
    with quiet_step [OF q] law Inl g show ?thesis using same_ids_trans [of w w1 w'] by auto
  next
    case (Inr rs)
    have eq: "w' = fold (reap_one B p) rs w1" unfolding w' reaper_tick_def using g Inr by simp
    from law Inr have l: "invar w1" "same_ids w w1" "\<forall>r \<in> set rs. r < next_ref w1"
      and le: "places_le ((where_is w)\<lparr>leased := leased (where_is w) - JID ` heap w1 ` set rs\<rparr>) (where_is w1)"
      by auto
    note fld = reap_fold_accounted [OF l(1,3) eq]
    have "held (where_is w) \<subseteq> held (where_is w1) \<union> JID ` heap w1 ` set rs"
      using le unfolding places_le_def held_def by auto
    moreover have "held (where_is w1) \<subseteq> held (where_is w')" using fld places_le_held by blast
    moreover have "pending (where_is w') \<subseteq> held (where_is w')" by (auto simp: held_def)
    moreover have "reported w1 w' \<subseteq> reported w w'" using fld reported_after [OF l(2)] by auto
    moreover have "JID ` heap w1 ` set rs \<subseteq> pending (where_is w') \<union> reported w1 w'" using fld by blast
    ultimately have "held (where_is w) \<subseteq> held (where_is w') \<union> reported w w'" by (rule subset_chain)
    then show ?thesis using fld same_ids_trans [OF l(2)] by blast
  qed
qed

end

end
