(* ===== verification/Redis_Broker.thy ===== *)
theory Redis_Broker
  imports Broker_Interface "HOL-Library.Product_Lexorder" "HOL-Library.List_Lexorder" "HOL-Library.Char_ord"
begin

text \<open>
  The Redis broker of \<^verbatim>\<open>internal/broker/redis_broker.go\<close>. The Redis server and the go-redis
  client are not part of the repository: they are the argument \<open>R\<close> of the operations, a
  table of the commands the source issues, over a state \<open>'s\<close> of connection and server;
  \<open>json.Marshal\<close> and \<open>json.Unmarshal\<close> are the arguments \<open>marshal\<close> and
  \<open>unmarshal\<close>. What the program relies on is stated in the locales \<open>redis_server\<close> and
  \<open>job_codec\<close>: the documented effect of each command on the lists and sorted sets of the server,
  where a call that reports an error may or may not have had that effect, and that JSON keeps the
  identifier of a job. Under these the broker keeps the contract of the interface, so what is proved
  of the processor over \<open>broker_contract\<close> holds for Redis too.
\<close>

section \<open>The client and the server\<close>

text \<open>
  A command is told the state of its context at the call; a deadline that passes during the call is
  one of the errors of the command. A sorted set is listed by score; scores are \<open>float64\<close> values of
  whole seconds. \<open>rc_Run\<close> runs a script; a reply of \<open>None\<close> is \<open>redis.Nil\<close>. The four
  \<open>call\<close> entries are \<open>redis.call\<close> inside a script.
\<close>

record 's Redis =
  call_RPOP :: "string \<Rightarrow> 's \<Rightarrow> string option \<times> 's"
  call_ZADD :: "string \<Rightarrow> rat \<Rightarrow> string \<Rightarrow> 's \<Rightarrow> 's"
  call_ZRANGEBYSCORE :: "string \<Rightarrow> rat \<Rightarrow> rat \<Rightarrow> nat \<Rightarrow> 's \<Rightarrow> string list"
  call_ZREM :: "string \<Rightarrow> string \<Rightarrow> 's \<Rightarrow> 's"
  rc_Run :: "ctx_error option \<Rightarrow> ('s \<Rightarrow> string list option \<times> 's) \<Rightarrow> 's \<Rightarrow> (error + string list option) \<times> 's"
  rc_LPush :: "ctx_error option \<Rightarrow> string \<Rightarrow> string \<Rightarrow> 's \<Rightarrow> error option \<times> 's"
  rc_LLen :: "ctx_error option \<Rightarrow> string \<Rightarrow> 's \<Rightarrow> (error + int) \<times> 's"
  rc_Del :: "ctx_error option \<Rightarrow> string \<Rightarrow> 's \<Rightarrow> error option \<times> 's"
  rc_ZAdd :: "ctx_error option \<Rightarrow> string \<Rightarrow> rat \<Rightarrow> string \<Rightarrow> 's \<Rightarrow> error option \<times> 's"
  rc_ZRem :: "ctx_error option \<Rightarrow> string \<Rightarrow> string \<Rightarrow> 's \<Rightarrow> error option \<times> 's"
  rc_ZCard :: "ctx_error option \<Rightarrow> string \<Rightarrow> 's \<Rightarrow> (error + int) \<times> 's"
  rc_ZRangeByScore :: "ctx_error option \<Rightarrow> string \<Rightarrow> rat \<Rightarrow> rat \<Rightarrow> int \<Rightarrow> 's \<Rightarrow> (error + string list) \<times> 's"
  rc_ZRemRangeByRank :: "ctx_error option \<Rightarrow> string \<Rightarrow> int \<Rightarrow> int \<Rightarrow> 's \<Rightarrow> error option \<times> 's"
  rc_Scan :: "ctx_error option \<Rightarrow> nat \<Rightarrow> string \<Rightarrow> int \<Rightarrow> 's \<Rightarrow> (error + string list \<times> nat) \<times> 's"
  rc_Ping :: "ctx_error option \<Rightarrow> 's \<Rightarrow> error option \<times> 's"
  rc_Close :: "'s \<Rightarrow> error option \<times> 's"

section \<open>The broker\<close>

text \<open>
  \<open>rb_ctx_done\<close>: the broker's own context is cancelled. \<open>rb_log\<close> is false for the
  \<open>nopLogger\<close>.
\<close>

record 's RedisBroker =
  rb_client :: 's
  rb_ctx_done :: bool
  rb_log :: bool

type_synonym 's redis_world = "'s RedisBroker world"
type_synonym encoder = "Job \<Rightarrow> error + string"
type_synonym decoder = "string \<Rightarrow> error + Job"

definition rb_ctx :: "'s redis_world \<Rightarrow> ctx_error option" where
  "rb_ctx w = (if rb_ctx_done (brk w) then Some Canceled else None)"

definition with_client :: "('s \<Rightarrow> 'a \<times> 's) \<Rightarrow> 's redis_world \<Rightarrow> 'a \<times> 's redis_world" where
  "with_client f w =
     (case f (rb_client (brk w)) of (x, s) \<Rightarrow> (x, w\<lparr>brk := (brk w)\<lparr>rb_client := s\<rparr>\<rparr>))"

definition wrap_err :: "string \<Rightarrow> error option \<Rightarrow> error option" where
  "wrap_err msg = map_option (Wrapf msg)"

definition queueKey :: "string \<Rightarrow> string" where
  "queueKey queue = ''queue:'' @ queue"

definition redisProcessingKey :: string where "redisProcessingKey = ''processing''"

definition redis_Ping :: "'s Redis \<Rightarrow> ctx \<Rightarrow> 's redis_world \<Rightarrow> 's RedisBroker result" where
  "redis_Ping R ctx w = with_client (rc_Ping R (ctx_Err w ctx)) w"

definition redis_Close :: "'s Redis \<Rightarrow> 's redis_world \<Rightarrow> 's RedisBroker result" where
  "redis_Close R w = with_client (rc_Close R) (w\<lparr>brk := (brk w)\<lparr>rb_ctx_done := True\<rparr>\<rparr>)"

definition redis_Enqueue ::
  "'s Redis \<Rightarrow> encoder \<Rightarrow> ctx \<Rightarrow> string \<Rightarrow> jobref \<Rightarrow> 's redis_world \<Rightarrow> 's RedisBroker result" where
  "redis_Enqueue R marshal ctx queue r w =
     (case ToJSON marshal (heap w r) of
        Inl err \<Rightarrow> (Some (Wrapf ''failed to serialize job'' err), w)
      | Inr data \<Rightarrow>
          (let (err, w1) = with_client (rc_LPush R (ctx_Err w ctx) (queueKey queue) data) w
           in (wrap_err ''failed to enqueue job'' err, w1)))"

definition dequeueAndLeaseScript ::
  "'s Redis \<Rightarrow> string \<Rightarrow> string \<Rightarrow> rat \<Rightarrow> 's \<Rightarrow> string list option \<times> 's" where
  "dequeueAndLeaseScript R qkey pkey leaseExp s =
     (case call_RPOP R qkey s of
        (None, s1) \<Rightarrow> (None, s1)
      | (Some val, s1) \<Rightarrow> (Some [qkey, val], call_ZADD R pkey leaseExp val s1))"

text \<open>
  One pass over the queues. \<open>None\<close>: no queue had a job. The bytes of the payload are kept
  in the job for \<open>Ack\<close>.
\<close>

fun redis_scan ::
  "'s Redis \<Rightarrow> decoder \<Rightarrow> string list \<Rightarrow> 's redis_world \<Rightarrow>
     (error + jobref \<times> string) option \<times> 's redis_world" where
  "redis_scan R unmarshal [] w = (None, w)"
| "redis_scan R unmarshal (queueName # queues) w =
     (let (now, w1) = time_Now w;
          leaseExp = of_int (Unix (now + DefaultLeaseDuration));
          (result, w2) = with_client (rc_Run R (rb_ctx w1)
            (dequeueAndLeaseScript R (queueKey queueName) redisProcessingKey leaseExp)) w1
      in case result of
           Inl err \<Rightarrow> (Some (Inl (Wrapf ''failed to dequeue'' err)), w2)
         | Inr None \<Rightarrow> redis_scan R unmarshal queues w2
         | Inr (Some res) \<Rightarrow>
             if length res < 2 then redis_scan R unmarshal queues w2
             else case FromJSON unmarshal (res ! 1) of
                    Inl err \<Rightarrow> (Some (Inl (Wrapf ''failed to deserialize job'' err)), w2)
                  | Inr job \<Rightarrow>
                      (let (r, w3) = alloc_job (job\<lparr>RawPayload := res ! 1\<rparr>) w2
                       in (Some (Inr (r, drop 6 (res ! 0))), w3)))"

partial_function (option) redis_poll ::
  "'s Redis \<Rightarrow> decoder \<Rightarrow> string list \<Rightarrow> time \<Rightarrow> 's redis_world \<Rightarrow>
     ((error + (jobref \<times> string) option) \<times> 's redis_world) option" where
  "redis_poll R unmarshal queues deadline w =
     (case redis_scan R unmarshal queues w of
        (Some res, w1) \<Rightarrow> Some (map_sum id Some res, w1)
      | (None, w1) \<Rightarrow>
          (let (now, w2) = time_Now w1 in
           if deadline < now then Some (Inr None, w2) else redis_poll R unmarshal queues deadline w2))"

definition redis_Dequeue ::
  "'s Redis \<Rightarrow> decoder \<Rightarrow> string list \<Rightarrow> dur \<Rightarrow> 's redis_world \<Rightarrow>
     ((error + (jobref \<times> string) option) \<times> 's redis_world) option" where
  "redis_Dequeue R unmarshal queues timeout w =
     (let (now, w1) = time_Now w in redis_poll R unmarshal queues (now + timeout) w1)"

definition rawOrSerialize :: "encoder \<Rightarrow> Job \<Rightarrow> error + string" where
  "rawOrSerialize marshal job =
     (if RawPayload job \<noteq> [] then Inr (RawPayload job) else ToJSON marshal job)"

definition redis_Ack ::
  "'s Redis \<Rightarrow> encoder \<Rightarrow> jobref \<Rightarrow> 's redis_world \<Rightarrow> 's RedisBroker result" where
  "redis_Ack R marshal r w =
     (case rawOrSerialize marshal (heap w r) of
        Inl err \<Rightarrow> (Some (Wrapf ''failed to serialize job for ack'' err), w)
      | Inr data \<Rightarrow> with_client (rc_ZRem R (rb_ctx w) redisProcessingKey data) w)"

definition recordStatEntry :: "'s Redis \<Rightarrow> string \<Rightarrow> jobref \<Rightarrow> 's redis_world \<Rightarrow> 's RedisBroker result" where
  "recordStatEntry R key r w =
     (let (now, w1) = time_Now w;
          w2 = snd (with_client (rc_ZAdd R (rb_ctx w1) key (of_int (Unix now)) (JID (heap w1 r))) w1);
          w3 = snd (with_client (rc_ZRemRangeByRank R (rb_ctx w2) key 0 (- 100001)) w2)
      in (None, w3))"

definition redis_RecordSuccess :: "'s Redis \<Rightarrow> jobref \<Rightarrow> 's redis_world \<Rightarrow> 's RedisBroker result" where
  "redis_RecordSuccess R r w = recordStatEntry R ''stat:processed'' r w"

definition redis_RecordFailure :: "'s Redis \<Rightarrow> jobref \<Rightarrow> 's redis_world \<Rightarrow> 's RedisBroker result" where
  "redis_RecordFailure R r w = recordStatEntry R ''stat:failed'' r w"

definition reapScript :: "'s Redis \<Rightarrow> string \<Rightarrow> rat \<Rightarrow> nat \<Rightarrow> 's \<Rightarrow> string list option \<times> 's" where
  "reapScript R key cutoff limit s =
     (let expired = call_ZRANGEBYSCORE R key 0 cutoff limit s
      in (Some expired, fold (call_ZREM R key) expired s))"

text \<open>The jobs the removed payloads decode to; a payload that does not decode is logged.\<close>

fun reap_decode :: "decoder \<Rightarrow> string list \<Rightarrow> 's redis_world \<Rightarrow> jobref list \<times> 's redis_world" where
  "reap_decode unmarshal [] w = ([], w)"
| "reap_decode unmarshal (data # results) w =
     (case FromJSON unmarshal data of
        Inl err \<Rightarrow>
          reap_decode unmarshal results
            (if rb_log (brk w)
             then log_line Warn ''orphaned job removed from processing but failed to deserialize''
               [(''error'', LErr err)] w
             else w)
      | Inr job \<Rightarrow>
          (let (r, w1) = alloc_job (job\<lparr>State := JobStatePending, RawPayload := []\<rparr>) w;
               (rs, w2) = reap_decode unmarshal results w1
           in (r # rs, w2)))"

definition redis_ReapOrphanedJobs ::
  "'s Redis \<Rightarrow> decoder \<Rightarrow> dur \<Rightarrow> 's redis_world \<Rightarrow> (error + jobref list) \<times> 's redis_world" where
  "redis_ReapOrphanedJobs R unmarshal _ w =
     (let (now, w1) = time_Now w;
          cutoff = of_int (Unix now);
          (results, w2) = with_client (rc_Run R (rb_ctx w1) (reapScript R redisProcessingKey cutoff 100)) w1
      in case results of
           Inr None \<Rightarrow> (Inr [], w2)
         | Inl err \<Rightarrow> (Inl (Wrapf ''failed to reap orphaned jobs'' err), w2)
         | Inr (Some ds) \<Rightarrow> (let (rs, w3) = reap_decode unmarshal ds w2 in (Inr rs, w3)))"

definition redis_AddToRetry ::
  "'s Redis \<Rightarrow> encoder \<Rightarrow> jobref \<Rightarrow> time \<Rightarrow> 's redis_world \<Rightarrow> 's RedisBroker result" where
  "redis_AddToRetry R marshal r retryAt w =
     (case ToJSON marshal (heap w r) of
        Inl err \<Rightarrow> (Some (Wrapf ''failed to serialize job'' err), w)
      | Inr data \<Rightarrow> with_client (rc_ZAdd R (rb_ctx w) ''retry'' (of_int (Unix retryAt)) data) w)"

text \<open>The jobs of the payloads that decode, in order.\<close>

fun retry_decode :: "decoder \<Rightarrow> string list \<Rightarrow> 's redis_world \<Rightarrow> jobref list \<times> 's redis_world" where
  "retry_decode unmarshal [] w = ([], w)"
| "retry_decode unmarshal (data # results) w =
     (case FromJSON unmarshal data of
        Inl err \<Rightarrow> retry_decode unmarshal results w
      | Inr job \<Rightarrow>
          (let (r, w1) = alloc_job job w;
               (rs, w2) = retry_decode unmarshal results w1
           in (r # rs, w2)))"

definition retry_limit :: "int \<Rightarrow> int" where
  "retry_limit limit =
     (let l1 = (if limit \<le> 0 then 1 else limit) in if l1 > 10000 then 10000 else l1)"

definition redis_GetRetryJobs ::
  "'s Redis \<Rightarrow> decoder \<Rightarrow> int \<Rightarrow> 's redis_world \<Rightarrow> (error + jobref list) \<times> 's redis_world" where
  "redis_GetRetryJobs R unmarshal limit w =
     (let (now, w1) = time_Now w;
          (result, w2) = with_client (rc_ZRangeByScore R (rb_ctx w1) ''retry'' 0 (of_int (Unix now))
            (retry_limit limit)) w1
      in case result of
           Inl err \<Rightarrow> (Inl (Wrapf ''failed to get retry jobs'' err), w2)
         | Inr ds \<Rightarrow> (let (rs, w3) = retry_decode unmarshal ds w2 in (Inr rs, w3)))"

definition redis_RemoveFromRetry ::
  "'s Redis \<Rightarrow> encoder \<Rightarrow> jobref \<Rightarrow> 's redis_world \<Rightarrow> 's RedisBroker result" where
  "redis_RemoveFromRetry R marshal r w =
     (case ToJSON marshal (heap w r) of
        Inl err \<Rightarrow> (Some err, w)
      | Inr data \<Rightarrow> with_client (rc_ZRem R (rb_ctx w) ''retry'' data) w)"

definition redis_AddToDead ::
  "'s Redis \<Rightarrow> encoder \<Rightarrow> jobref \<Rightarrow> 's redis_world \<Rightarrow> 's RedisBroker result" where
  "redis_AddToDead R marshal r w =
     (case ToJSON marshal (heap w r) of
        Inl err \<Rightarrow> (Some (Wrapf ''failed to serialize job'' err), w)
      | Inr data \<Rightarrow>
          (let (now, w1) = time_Now w
           in with_client (rc_ZAdd R (rb_ctx w1) ''dead'' (of_int (Unix now)) data) w1))"

definition redis_GetQueueSize ::
  "'s Redis \<Rightarrow> string \<Rightarrow> 's redis_world \<Rightarrow> (error + int) \<times> 's redis_world" where
  "redis_GetQueueSize R queue w = with_client (rc_LLen R (rb_ctx w) (''queue:'' @ queue)) w"

definition redis_DeleteKey :: "'s Redis \<Rightarrow> string \<Rightarrow> 's redis_world \<Rightarrow> 's RedisBroker result" where
  "redis_DeleteKey R key w =
     (if \<not> HasPrefix key ''queue:'' then (Some (DeleteKeyRestricted key), w)
      else with_client (rc_Del R (rb_ctx w) key) w)"

text \<open>The sizes of the queues of one page of keys.\<close>

fun scan_sizes ::
  "'s Redis \<Rightarrow> string list \<Rightarrow> (string \<times> int) list \<Rightarrow> 's redis_world \<Rightarrow>
     (error + (string \<times> int) list) \<times> 's redis_world" where
  "scan_sizes R [] sizes w = (Inr sizes, w)"
| "scan_sizes R (key # keys) sizes w =
     (if 6 < length key then
        (let (size, w1) = with_client (rc_LLen R (rb_ctx w) key) w in
         case size of
           Inl err \<Rightarrow> (Inl (Wrapf (''failed to get queue size for '' @ drop 6 key) err), w1)
         | Inr n \<Rightarrow> scan_sizes R keys (AList.update (drop 6 key) n sizes) w1)
      else scan_sizes R keys sizes w)"

partial_function (option) scan_queues ::
  "'s Redis \<Rightarrow> nat \<Rightarrow> (string \<times> int) list \<Rightarrow> 's redis_world \<Rightarrow>
     ((error + (string \<times> int) list) \<times> 's redis_world) option" where
  "scan_queues R cursor sizes w =
     (case with_client (rc_Scan R (rb_ctx w) cursor ''queue:*'' 100) w of
        (Inl err, w1) \<Rightarrow> Some (Inl (Wrapf ''failed to scan queue keys'' err), w1)
      | (Inr (keys, cursor1), w1) \<Rightarrow>
          (case scan_sizes R keys sizes w1 of
             (Inl err, w2) \<Rightarrow> Some (Inl err, w2)
           | (Inr sizes1, w2) \<Rightarrow>
               if cursor1 = 0 then Some (Inr sizes1, w2) else scan_queues R cursor1 sizes1 w2))"

definition stat_card :: "'s Redis \<Rightarrow> string \<Rightarrow> string \<Rightarrow> 's redis_world \<Rightarrow> (error + int) \<times> 's redis_world" where
  "stat_card R key msg w =
     (let (n, w1) = with_client (rc_ZCard R (rb_ctx w) key) w in (map_sum (Wrapf msg) id n, w1))"

definition redis_GetStats ::
  "'s Redis \<Rightarrow> 's redis_world \<Rightarrow> ((error + (string \<times> sval) list) \<times> 's redis_world) option" where
  "redis_GetStats R w =
     (case stat_card R ''stat:processed'' ''failed to get processed stats'' w of
        (Inl e, w1) \<Rightarrow> Some (Inl e, w1) | (Inr processed, w1) \<Rightarrow>
     (case stat_card R ''stat:failed'' ''failed to get failed stats'' w1 of
        (Inl e, w2) \<Rightarrow> Some (Inl e, w2) | (Inr failed, w2) \<Rightarrow>
     (case stat_card R ''retry'' ''failed to get retry stats'' w2 of
        (Inl e, w3) \<Rightarrow> Some (Inl e, w3) | (Inr retry, w3) \<Rightarrow>
     (case stat_card R ''dead'' ''failed to get dead stats'' w3 of
        (Inl e, w4) \<Rightarrow> Some (Inl e, w4) | (Inr dead, w4) \<Rightarrow>
     (case scan_queues R 0 [] w4 of
        None \<Rightarrow> None
      | Some (Inl e, w5) \<Rightarrow> Some (Inl e, w5)
      | Some (Inr sizes, w5) \<Rightarrow>
          Some (Inr [(''processed'', SInt64 processed), (''failed'', SInt64 failed),
                     (''retry'', SInt64 retry), (''dead'', SInt64 dead), (''queues'', SQueues sizes)], w5))))))"

text \<open>The method table of the Redis broker.\<close>

definition redisB :: "'s Redis \<Rightarrow> encoder \<Rightarrow> decoder \<Rightarrow> 's RedisBroker Broker" where
  "redisB R marshal unmarshal =
     \<lparr>bk_Enqueue = redis_Enqueue R marshal, bk_Dequeue = redis_Dequeue R unmarshal,
      bk_Ack = redis_Ack R marshal, bk_ReapOrphanedJobs = redis_ReapOrphanedJobs R unmarshal,
      bk_AddToRetry = redis_AddToRetry R marshal, bk_GetRetryJobs = redis_GetRetryJobs R unmarshal,
      bk_RemoveFromRetry = redis_RemoveFromRetry R marshal, bk_AddToDead = redis_AddToDead R marshal,
      bk_GetQueueSize = redis_GetQueueSize R, bk_DeleteKey = redis_DeleteKey R,
      bk_RecordSuccess = redis_RecordSuccess R, bk_RecordFailure = redis_RecordFailure R,
      bk_GetStats = redis_GetStats R, bk_Ping = redis_Ping R, bk_Close = redis_Close R\<rparr>"

section \<open>What the broker relies on\<close>

text \<open>
  The data of the server: the lists, head first, and the sorted sets in the order of their
  ranks, by score and then by the bytes of the member.
\<close>

record redis_data =
  rd_list :: "string \<Rightarrow> string list"
  rd_zset :: "string \<Rightarrow> (string \<times> rat) list"

definition lpush :: "string \<Rightarrow> string \<Rightarrow> redis_data \<Rightarrow> redis_data" where
  "lpush k d D = D\<lparr>rd_list := (rd_list D)(k := d # rd_list D k)\<rparr>"

definition rpop :: "string \<Rightarrow> redis_data \<Rightarrow> redis_data" where
  "rpop k D = D\<lparr>rd_list := (rd_list D)(k := butlast (rd_list D k))\<rparr>"

definition zadd :: "string \<Rightarrow> rat \<Rightarrow> string \<Rightarrow> redis_data \<Rightarrow> redis_data" where
  "zadd k sc m D = D\<lparr>rd_zset := (rd_zset D)(k :=
     insort_key (\<lambda>(m, sc). (sc, m)) (m, sc) (filter (\<lambda>x. fst x \<noteq> m) (rd_zset D k)))\<rparr>"

definition zrem :: "string \<Rightarrow> string \<Rightarrow> redis_data \<Rightarrow> redis_data" where
  "zrem k m D = D\<lparr>rd_zset := (rd_zset D)(k := filter (\<lambda>x. fst x \<noteq> m) (rd_zset D k))\<rparr>"

definition zrange :: "rat \<Rightarrow> rat \<Rightarrow> nat \<Rightarrow> (string \<times> rat) list \<Rightarrow> string list" where
  "zrange lo hi n z = take n (map fst (filter (\<lambda>x. lo \<le> snd x \<and> snd x \<le> hi) z))"

text \<open>Removing the ranks from 0 to \<open>stop\<close>, which counts from the end when negative.\<close>

definition ztrim :: "string \<Rightarrow> int \<Rightarrow> redis_data \<Rightarrow> redis_data" where
  "ztrim k stop D = D\<lparr>rd_zset := (rd_zset D)(k :=
     (let z = rd_zset D k in drop (nat ((if stop < 0 then int (length z) + stop else stop) + 1)) z))\<rparr>"

definition del :: "string \<Rightarrow> redis_data \<Rightarrow> redis_data" where
  "del k D = D\<lparr>rd_list := (rd_list D)(k := []), rd_zset := (rd_zset D)(k := [])\<rparr>"

lemmas redis_data_ops = lpush_def rpop_def zadd_def zrem_def ztrim_def del_def

text \<open>
  The commands, as documented by Redis. The keys hold the types the broker itself writes, so the
  calls of a script do not raise. A command is executed at most once, and a call that reports an
  error was executed or not. No other client changes the data between two commands.
\<close>

locale redis_server =
  fixes R :: "'s Redis" and data :: "'s \<Rightarrow> redis_data"
  assumes rpop_call:
    "call_RPOP R k s = (v, s') \<Longrightarrow>
       v = (if rd_list (data s) k = [] then None else Some (last (rd_list (data s) k))) \<and>
       data s' = rpop k (data s)"
    and zadd_call: "data (call_ZADD R k sc m s) = zadd k sc m (data s)"
    and zrange_call: "call_ZRANGEBYSCORE R k lo hi n s = zrange lo hi n (rd_zset (data s) k)"
    and zrem_call: "data (call_ZREM R k m s) = zrem k m (data s)"
    and run_law:
    "rc_Run R c f s = (x, s') \<Longrightarrow> \<exists>s0. data s0 = data s \<and>
       (x = Inr (fst (f s0)) \<and> data s' = data (snd (f s0)) \<or>
        (\<exists>e. x = Inl e) \<and> (data s' = data s \<or> data s' = data (snd (f s0))))"
    and lpush_law:
    "rc_LPush R c k m s = (e, s') \<Longrightarrow> data s' = lpush k m (data s) \<or> e \<noteq> None \<and> data s' = data s"
    and del_law:
    "rc_Del R c k s = (e, s') \<Longrightarrow> data s' = del k (data s) \<or> e \<noteq> None \<and> data s' = data s"
    and zadd_law:
    "rc_ZAdd R c k sc m s = (e, s') \<Longrightarrow> data s' = zadd k sc m (data s) \<or> e \<noteq> None \<and> data s' = data s"
    and zrem_law:
    "rc_ZRem R c k m s = (e, s') \<Longrightarrow> data s' = zrem k m (data s) \<or> e \<noteq> None \<and> data s' = data s"
    and ztrim_law:
    "rc_ZRemRangeByRank R c k 0 stop s = (e, s') \<Longrightarrow>
       data s' = ztrim k stop (data s) \<or> e \<noteq> None \<and> data s' = data s"
    and zrange_law:
    "0 < cnt \<Longrightarrow> rc_ZRangeByScore R c k lo hi cnt s = (y, s') \<Longrightarrow>
       data s' = data s \<and> (\<forall>ds. y = Inr ds \<longrightarrow> ds = zrange lo hi (nat cnt) (rd_zset (data s) k))"

text \<open>
  JSON as the job uses it: the struct tag keeps \<open>RawPayload\<close> out of the text, the text is never
  empty, decoding yields UTF-8 strings, and an identifier that is UTF-8 survives.
\<close>

locale job_codec =
  fixes marshal :: encoder and unmarshal :: decoder and utf8 :: "string \<Rightarrow> bool"
  assumes marshal_raw: "marshal (j\<lparr>RawPayload := p\<rparr>) = marshal j"
    and marshal_decodes:
    "marshal j = Inr d \<Longrightarrow> utf8 (JID j) \<Longrightarrow> d \<noteq> [] \<and> (\<exists>j'. unmarshal d = Inr j' \<and> JID j' = JID j)"
    and unmarshal_clean: "unmarshal d = Inr j \<Longrightarrow> RawPayload j = [] \<and> utf8 (JID j)"

text \<open>
  Decoding fixes the values of a job to those JSON has (strings of UTF-8, numbers, lists, maps), and those
  survive another encoding. The text need not be the one that was decoded.
\<close>

locale decoded_codec = job_codec +
  assumes decoded_round_trip:
    "unmarshal p = Inr j \<Longrightarrow> utf8 st \<Longrightarrow>
       marshal (j\<lparr>Retry := m, RetryCount := c, State := st, RawPayload := x\<rparr>) = Inr d \<Longrightarrow>
       unmarshal d = Inr (j\<lparr>Retry := m, RetryCount := c, State := st, RawPayload := []\<rparr>)"

locale redis_broker = redis_server R data + job_codec marshal unmarshal utf8
  for R :: "'s Redis" and data :: "'s \<Rightarrow> redis_data" and marshal :: encoder
    and unmarshal :: decoder and utf8 :: "string \<Rightarrow> bool"

section \<open>Invariant and abstraction\<close>

definition ids_of :: "decoder \<Rightarrow> string set \<Rightarrow> string set" where
  "ids_of unmarshal A = {JID j | d j. d \<in> A \<and> unmarshal d = Inr j}"

definition queued :: "redis_data \<Rightarrow> string set" where
  "queued D = (\<Union>q. set (rd_list D (queueKey q)))"

definition members :: "redis_data \<Rightarrow> string \<Rightarrow> string set" where
  "members D k = fst ` set (rd_zset D k)"

definition redis_places :: "decoder \<Rightarrow> redis_data \<Rightarrow> places" where
  "redis_places unmarshal D =
     \<lparr>pending = ids_of unmarshal (queued D), leased = ids_of unmarshal (members D redisProcessingKey),
      retrying = ids_of unmarshal (members D ''retry''), buried = ids_of unmarshal (members D ''dead'')\<rparr>"

definition redis_where :: "('s \<Rightarrow> redis_data) \<Rightarrow> decoder \<Rightarrow> 's redis_world \<Rightarrow> places" where
  "redis_where data unmarshal w = redis_places unmarshal (data (rb_client (brk w)))"

text \<open>
  Every stored payload decodes to a job, and the bytes a job keeps for \<open>Ack\<close> decode to a job with
  the same identifier.
\<close>

definition stored_ok :: "decoder \<Rightarrow> redis_data \<Rightarrow> bool" where
  "stored_ok unmarshal D \<longleftrightarrow>
     (\<forall>d \<in> queued D \<union> members D redisProcessingKey \<union> members D ''retry'' \<union> members D ''dead''.
        d \<noteq> [] \<and> (\<exists>j. unmarshal d = Inr j))"

definition raw_ok :: "decoder \<Rightarrow> (string \<Rightarrow> bool) \<Rightarrow> Job \<Rightarrow> bool" where
  "raw_ok unmarshal utf8 j \<longleftrightarrow> utf8 (JID j) \<and>
     (RawPayload j \<noteq> [] \<longrightarrow> (\<exists>j'. unmarshal (RawPayload j) = Inr j' \<and> JID j' = JID j))"

definition redis_invar ::
  "('s \<Rightarrow> redis_data) \<Rightarrow> decoder \<Rightarrow> (string \<Rightarrow> bool) \<Rightarrow> 's redis_world \<Rightarrow> bool" where
  "redis_invar data unmarshal utf8 w \<longleftrightarrow> stored_ok unmarshal (data (rb_client (brk w))) \<and>
     (\<forall>r < next_ref w. raw_ok unmarshal utf8 (heap w r))"

definition redis_admissible :: "(string \<Rightarrow> bool) \<Rightarrow> Job \<Rightarrow> bool" where
  "redis_admissible utf8 j \<longleftrightarrow> RawPayload j = [] \<and> utf8 (JID j)"

section \<open>Lemmas\<close>

lemma queueKey_eq [simp]: "queueKey p = queueKey q \<longleftrightarrow> p = q"
  by (simp add: queueKey_def)

lemma queueKey_other [simp]:
  "queueKey q \<noteq> redisProcessingKey" "queueKey q \<noteq> ''retry''" "queueKey q \<noteq> ''dead''"
  "redisProcessingKey \<noteq> ''retry''" "redisProcessingKey \<noteq> ''dead''"
  "redisProcessingKey \<noteq> ''stat:processed''" "redisProcessingKey \<noteq> ''stat:failed''"
  "''retry'' \<noteq> redisProcessingKey" "''dead'' \<noteq> redisProcessingKey"
  by (simp_all add: queueKey_def redisProcessingKey_def)

lemma FromJSON_JID: "unmarshal d = Inr j \<Longrightarrow> FromJSON unmarshal d = Inr (clamp_decoded j)"
  by (simp add: FromJSON_def)

lemma clamp_decoded_sel [simp]:
  "JID (clamp_decoded j) = JID j" "RawPayload (clamp_decoded j) = RawPayload j"
  "Queue (clamp_decoded j) = Queue j" "Class (clamp_decoded j) = Class j" "Args (clamp_decoded j) = Args j"
  by (simp_all add: clamp_decoded_def Let_def)

lemma members_ops [simp]:
  "members (lpush k d D) k' = members D k'" "members (rpop k D) k' = members D k'"
  "members (zadd k sc m D) k' = (if k' = k then insert m (members D k) else members D k')"
  "members (zrem k m D) k' = (if k' = k then members D k - {m} else members D k')"
  by (auto simp: members_def redis_data_ops set_insort_key)

lemma queued_ops [simp]:
  "queued (lpush (queueKey q) d D) = insert d (queued D)" "queued (zadd k sc m D) = queued D"
  "queued (zrem k m D) = queued D" "queued (ztrim k n D) = queued D"
  by (auto simp: queued_def redis_data_ops split: if_splits)

lemma members_ztrim: "members (ztrim k n D) k' \<subseteq> members D k'" "k' \<noteq> k \<Longrightarrow> members (ztrim k n D) k' = members D k'"
  by (auto simp: members_def redis_data_ops Let_def dest: in_set_dropD)

lemma queued_rpop:
  "queued D \<subseteq> insert (last (rd_list D (queueKey q))) (queued (rpop (queueKey q) D))"
  "queued (rpop (queueKey q) D) \<subseteq> queued D"
proof -
  have "set xs \<subseteq> insert (last xs) (set (butlast xs))" for xs :: "string list"
    by (induction xs rule: rev_induct) auto
  then have "set (rd_list D (queueKey p)) \<subseteq>
      insert (last (rd_list D (queueKey q))) (set (rd_list (rpop (queueKey q) D) (queueKey p)))" for p
    by (cases "p = q") (simp_all add: rpop_def subset_insertI)
  then show "queued D \<subseteq> insert (last (rd_list D (queueKey q))) (queued (rpop (queueKey q) D))"
    unfolding queued_def by blast
  show "queued (rpop (queueKey q) D) \<subseteq> queued D"
    unfolding queued_def by (auto simp: rpop_def split: if_splits) (blast dest: in_set_butlastD)+
qed

lemma ids_of_insert: "unmarshal d = Inr j \<Longrightarrow> ids_of unmarshal (insert d A) = insert (JID j) (ids_of unmarshal A)"
  by (auto simp: ids_of_def)

lemma ids_of_mono: "A \<subseteq> B \<Longrightarrow> ids_of unmarshal A \<subseteq> ids_of unmarshal B"
  by (auto simp: ids_of_def)

lemma ids_of_remove:
  "unmarshal d = Inr j \<Longrightarrow> ids_of unmarshal A - {JID j} \<subseteq> ids_of unmarshal (A - {d})"
  by (force simp: ids_of_def)

lemma with_client_cases:
  assumes "with_client f w = (x, w')"
  obtains s where "f (rb_client (brk w)) = (x, s)" "w' = w\<lparr>brk := (brk w)\<lparr>rb_client := s\<rparr>\<rparr>"
  using assms by (auto simp: with_client_def split: prod.splits)

lemma unlease_le_refl: "unlease_le jid p p"
  by (auto simp: unlease_le_def places_le_def)

lemma places_le_less_retry: "places_le (p\<lparr>retrying := retrying p - A\<rparr>) p"
  by (auto simp: places_le_def)

lemma stored_ok_ops:
  "stored_ok u D \<Longrightarrow> d \<noteq> [] \<Longrightarrow> u d = Inr j \<Longrightarrow> stored_ok u (lpush (queueKey q) d D)"
  "stored_ok u D \<Longrightarrow> d \<noteq> [] \<Longrightarrow> u d = Inr j \<Longrightarrow> stored_ok u (zadd k sc d D)"
  "stored_ok u D \<Longrightarrow> stored_ok u (zrem k m D)"
  by (auto simp: stored_ok_def)

lemma stored_ok_rpop: "stored_ok u D \<Longrightarrow> stored_ok u (rpop (queueKey q) D)"
  using queued_rpop(2) [of q D] by (auto simp: stored_ok_def)

lemma stored_ok_ztrim: "stored_ok u D \<Longrightarrow> stored_ok u (ztrim k n D)"
  using members_ztrim(1) [of k n D] unfolding stored_ok_def queued_ops by blast

lemma redis_places_ops:
  "u d = Inr j \<Longrightarrow> redis_places u (lpush (queueKey q) d D) = put_pending (JID j) (redis_places u D)"
  "u d = Inr j \<Longrightarrow> redis_places u (zadd ''retry'' sc d D) = put_retrying (JID j) (redis_places u D)"
  "u d = Inr j \<Longrightarrow> redis_places u (zadd ''dead'' sc d D) = put_buried (JID j) (redis_places u D)"
  by (simp_all add: redis_places_def ids_of_insert)

lemma redis_places_stat:
  assumes "k = ''stat:processed'' \<or> k = ''stat:failed''"
  shows "redis_places u (zadd k sc m D) = redis_places u D \<and> redis_places u (ztrim k n D) = redis_places u D"
    "stored_ok u (zadd k sc m D) = stored_ok u D"
  using assms by (elim disjE; simp add: redis_places_def stored_ok_def members_ztrim(2))+

lemma redis_places_zrem:
  assumes "u d = Inr j"
  shows "unlease_le (JID j) (redis_places u D) (redis_places u (zrem redisProcessingKey d D))"
    "places_le ((redis_places u D)\<lparr>retrying := retrying (redis_places u D) - {JID j}\<rparr>)
       (redis_places u (zrem ''retry'' d D))"
  using ids_of_remove [of u d j] assms
  by (simp_all add: redis_places_def unlease_le_def places_le_def)

lemma members_zrems [simp]:
  "members (fold (zrem k) ms D) k' = (if k' = k then members D k - set ms else members D k')"
  "queued (fold (zrem k) ms D) = queued D"
  by (induction ms arbitrary: D) auto

lemma stored_ok_zrems: "stored_ok u D \<Longrightarrow> stored_ok u (fold (zrem k) ms D)"
  by (auto simp: stored_ok_def split: if_splits)

lemma redis_places_zrems:
  "places_le ((redis_places u D)\<lparr>leased := leased (redis_places u D) - ids_of u (set ms)\<rparr>)
     (redis_places u (fold (zrem redisProcessingKey) ms D))"
proof -
  have "ids_of u A - ids_of u B \<subseteq> ids_of u (A - B)" for A B by (force simp: ids_of_def)
  then show ?thesis by (simp add: redis_places_def places_le_def)
qed

text \<open>The lease: what the script takes off the queue is in the processing set.\<close>

lemma lease_places:
  assumes "stored_ok u D" "rd_list D (queueKey q) \<noteq> []"
    and D': "D' = zadd redisProcessingKey sc (last (rd_list D (queueKey q))) (rpop (queueKey q) D)"
  obtains j where "u (last (rd_list D (queueKey q))) = Inr j" "stored_ok u D'"
    "dequeue_le (redis_places u D) (redis_places u D')" "JID j \<in> leased (redis_places u D')"
    "last (rd_list D (queueKey q)) \<noteq> []"
    "pending (redis_places u D) \<subseteq> insert (JID j) (pending (redis_places u D'))"
proof -
  let ?d = "last (rd_list D (queueKey q))"
  have "?d \<in> queued D" using assms(2) last_in_set by (fastforce simp: queued_def)
  then obtain j where j: "u ?d = Inr j" "?d \<noteq> []" using assms(1) by (auto simp: stored_ok_def)
  have "ids_of u (queued D) \<subseteq> insert (JID j) (ids_of u (queued (rpop (queueKey q) D)))"
    using ids_of_mono [OF queued_rpop(1) [of D q], of u] ids_of_insert [of u ?d j] j by simp
  then have "dequeue_le (redis_places u D) (redis_places u D')" "JID j \<in> leased (redis_places u D')"
    "pending (redis_places u D) \<subseteq> insert (JID j) (pending (redis_places u D'))"
    using j unfolding D' by (auto simp: dequeue_le_def redis_places_def ids_of_insert)
  moreover have "stored_ok u D'" unfolding D' using stored_ok_ops(2) stored_ok_rpop assms(1) j by blast
  ultimately show thesis using that j by blast
qed

lemma reap_decode_effect:
  assumes "reap_decode u ds w = (rs, w')" "\<forall>d \<in> set ds. \<exists>j. u d = Inr j"
  shows "brk w' = brk w \<and> same_ids w w' \<and> (\<forall>r \<in> set rs. next_ref w \<le> r \<and> r < next_ref w') \<and>
    (\<forall>r. next_ref w \<le> r \<and> r < next_ref w' \<longrightarrow> RawPayload (heap w' r) = [] \<and> (\<exists>d \<in> set ds. \<exists>j. u d = Inr j \<and> JID (heap w' r) = JID j)) \<and>
    ids_of u (set ds) = JID ` heap w' ` set rs"
  using assms
proof (induction ds arbitrary: w rs)
  case Nil
  then show ?case by (auto simp: ids_of_def)
next
  case (Cons d ds)
  obtain j where j: "u d = Inr j" using Cons.prems(2) by auto
  let ?j = "(clamp_decoded j)\<lparr>State := JobStatePending, RawPayload := []\<rparr>"
  let ?w1 = "snd (alloc_job ?j w)"
  obtain rs2 where rs: "rs = next_ref w # rs2" and run: "reap_decode u ds ?w1 = (rs2, w')"
    using Cons.prems(1) j by (auto simp: FromJSON_def alloc_job_def split: prod.splits)
  note ih = Cons.IH [OF run]
  have ids: "same_ids ?w1 w'" "same_ids w ?w1" using ih Cons.prems(2) same_ids_alloc by auto
  have n1: "next_ref ?w1 = Suc (next_ref w)" "heap ?w1 (next_ref w) = ?j" "brk ?w1 = brk w"
    by (simp_all add: alloc_job_def)
  have here: "JID (heap w' (next_ref w)) = JID j" "RawPayload (heap w' (next_ref w)) = []"
    using same_ids_JID [OF ids(1), of "next_ref w"] same_ids_RawPayload [OF ids(1), of "next_ref w"] n1 by auto
  have nr: "next_ref w < next_ref w'" using ids(1) n1 by (simp add: same_ids_def)
  have new: "RawPayload (heap w' r) = [] \<and> (\<exists>d' \<in> set (d # ds). \<exists>j. u d' = Inr j \<and> JID (heap w' r) = JID j)"
    if "next_ref w \<le> r" "r < next_ref w'" for r
    using ih Cons.prems(2) that here j n1 by (cases "r = next_ref w") auto
  have "ids_of u (set (d # ds)) = JID ` heap w' ` set rs"
    using ih Cons.prems(2) here(1) j rs by (simp add: ids_of_insert)
  with ih Cons.prems(2) new nr n1 rs same_ids_trans [OF ids(2,1)] show ?case by auto
qed

lemma retry_decode_effect:
  assumes "retry_decode u ds w = (rs, w')" "\<forall>d \<in> set ds. \<exists>j. u d = Inr j"
  shows "brk w' = brk w \<and> logs w' = logs w \<and> cancelled w' = cancelled w \<and> (\<forall>r < next_ref w. heap w' r = heap w r) \<and>
    next_ref w' = next_ref w + length ds \<and> rs = [next_ref w ..< next_ref w + length ds] \<and>
    (\<forall>i < length ds. \<exists>j. u (ds ! i) = Inr j \<and> heap w' (next_ref w + i) = clamp_decoded j)"
  using assms
proof (induction ds arbitrary: w rs)
  case (Cons d ds)
  obtain j where j: "u d = Inr j" using Cons.prems(2) by auto
  let ?w1 = "snd (alloc_job (clamp_decoded j) w)"
  obtain rs2 where rs: "rs = next_ref w # rs2" and run: "retry_decode u ds ?w1 = (rs2, w')"
    using Cons.prems(1) j by (auto simp: FromJSON_def alloc_job_def split: prod.splits)
  have n1: "next_ref ?w1 = Suc (next_ref w)" "brk ?w1 = brk w" "heap ?w1 = (heap w)(next_ref w := clamp_decoded j)"
    "logs ?w1 = logs w" "cancelled ?w1 = cancelled w" by (simp_all add: alloc_job_def)
  have ih: "brk w' = brk w" "logs w' = logs w \<and> cancelled w' = cancelled w" "\<forall>r < Suc (next_ref w). heap w' r = ((heap w)(next_ref w := clamp_decoded j)) r"
    "next_ref w' = Suc (next_ref w + length ds)" "rs2 = [Suc (next_ref w) ..< Suc (next_ref w + length ds)]"
    "\<forall>i < length ds. \<exists>j. u (ds ! i) = Inr j \<and> heap w' (Suc (next_ref w + i)) = clamp_decoded j"
    using Cons.IH [OF run] Cons.prems(2) n1 by simp_all
  have "\<exists>j. u ((d # ds) ! i) = Inr j \<and> heap w' (next_ref w + i) = clamp_decoded j" if "i < length (d # ds)" for i
    using ih(3,6) j that by (cases i) auto
  moreover have "rs = [next_ref w ..< next_ref w + length (d # ds)]"
    using rs ih(5) by (simp add: upt_conv_Cons del: upt_Suc)
  ultimately show ?case using ih(1-4) by simp
qed simp

lemma set_zrange: "set (zrange lo hi n z) \<subseteq> fst ` set z"
  unfolding zrange_def by (rule order_trans [OF set_take_subset]) auto

lemma rpop_empty: "rd_list D k = [] \<Longrightarrow> rpop k D = D"
  by (simp add: rpop_def fun_upd_idem)

text \<open>
  The rule for the polling loop: \<open>I\<close> is kept by a pass that finds nothing followed by a look at
  the clock, and \<open>Q\<close> holds when the loop is left.
\<close>

lemma redis_poll_rule:
  assumes "redis_poll R u qs dl w = Some z" "I w"
    and "\<And>w w1. I w \<Longrightarrow> redis_scan R u qs w = (None, w1) \<Longrightarrow> I (snd (time_Now w1)) \<and> Q (Inr None) (snd (time_Now w1))"
    and "\<And>w y w1. I w \<Longrightarrow> redis_scan R u qs w = (Some y, w1) \<Longrightarrow> Q (map_sum id Some y) w1"
  shows "Q (fst z) (snd z)"
  using assms
proof (induction R u qs dl w z rule: redis_poll.raw_induct [rotated 1, consumes 1, case_names step])
  case (step f R u qs dl w z)
  obtain x w1 where x: "redis_scan R u qs w = (x, w1)" by (cases "redis_scan R u qs w")
  show ?case
  proof (cases x)
    case None
    have i2: "I (snd (time_Now w1))" "Q (Inr None) (snd (time_Now w1))" using step.prems(1,2) x None by blast+
    show ?thesis
    proof (cases "dl < clock w1 0")
      case True
      then have "z = (Inr None, snd (time_Now w1))" using step.hyps x None by (simp add: case_prod_beta)
      with i2(2) show ?thesis by simp
    next
      case False
      then have "f R u qs dl (snd (time_Now w1)) = Some z" using step.hyps x None by (simp add: case_prod_beta)
      then show ?thesis by (rule step.IH) (use i2(1) step.prems(2-) in blast)+
    qed
  next
    case (Some y)
    then have "z = (map_sum id Some y, w1)" using step.hyps x by simp
    moreover have "Q (map_sum id Some y) w1" using step.prems(1,3) x Some by blast
    ultimately show ?thesis by simp
  qed
qed

context redis_broker
begin

lemma invar_step:
  assumes "redis_invar data unmarshal utf8 w" "heap w' = heap w" "next_ref w' = next_ref w"
    and "logs w' = logs w \<and> cancelled w' = cancelled w"
    and "stored_ok unmarshal (data (rb_client (brk w')))"
  shows "redis_invar data unmarshal utf8 w' \<and> same_ids w w'"
  using assms by (simp add: redis_invar_def same_ids_def)

lemma payload_decodes:
  assumes "redis_invar data unmarshal utf8 w" "r < next_ref w"
    and "ToJSON marshal (heap w r) = Inr d \<or> rawOrSerialize marshal (heap w r) = Inr d"
  obtains j where "unmarshal d = Inr j" "JID j = JID (heap w r)" "d \<noteq> []"
proof (cases "ToJSON marshal (heap w r) = Inr d")
  case True
  then show ?thesis
    using marshal_decodes [of "heap w r" d] assms(1,2) that by (auto simp: ToJSON_def redis_invar_def raw_ok_def)
next
  case False
  then show ?thesis
    using assms that by (auto simp: rawOrSerialize_def redis_invar_def raw_ok_def split: if_splits)
qed

lemma redis_cong:
  assumes "brk w' = brk w" "next_ref w' = next_ref w" "same_ids w w'" "redis_invar data unmarshal utf8 w"
  shows "redis_where data unmarshal w' = redis_where data unmarshal w \<and> redis_invar data unmarshal utf8 w'"
  using assms by (auto simp: redis_where_def redis_invar_def raw_ok_def same_ids_JID same_ids_RawPayload)

lemma redis_alloc:
  assumes "redis_invar data unmarshal utf8 w" "raw_ok unmarshal utf8 j"
  shows "redis_where data unmarshal (snd (alloc_job j w)) = redis_where data unmarshal w \<and>
    redis_invar data unmarshal utf8 (snd (alloc_job j w)) \<and> same_ids w (snd (alloc_job j w))"
  using assms by (auto simp: redis_where_def redis_invar_def alloc_job_def same_ids_def less_Suc_eq)

lemma redis_enqueue_contract:
  assumes "redis_invar data unmarshal utf8 w" "r < next_ref w" "redis_Enqueue R marshal c q r w = (e, w')"
  shows "redis_invar data unmarshal utf8 w' \<and> same_ids w w' \<and>
    (redis_where data unmarshal w' = put_pending (JID (heap w r)) (redis_where data unmarshal w) \<or>
     e \<noteq> None \<and> redis_where data unmarshal w' = redis_where data unmarshal w)"
proof (cases "ToJSON marshal (heap w r)")
  case (Inl err)
  then show ?thesis using assms by (auto simp: redis_Enqueue_def)
next
  case (Inr d)
  obtain e1 where e1: "with_client (rc_LPush R (ctx_Err w c) (queueKey q) d) w = (e1, w')" "e = wrap_err ''failed to enqueue job'' e1"
    using assms(3) Inr by (auto simp: redis_Enqueue_def split: prod.splits)
  then obtain s where s: "rc_LPush R (ctx_Err w c) (queueKey q) d (rb_client (brk w)) = (e1, s)"
    and w': "w' = w\<lparr>brk := (brk w)\<lparr>rb_client := s\<rparr>\<rparr>" by (auto elim: with_client_cases)
  obtain j where j: "unmarshal d = Inr j" "JID j = JID (heap w r)" "d \<noteq> []"
    using payload_decodes [OF assms(1,2)] Inr by blast
  have ok: "stored_ok unmarshal (data (rb_client (brk w)))" using assms(1) by (simp add: redis_invar_def)
  have "redis_invar data unmarshal utf8 w' \<and> same_ids w w'"
    using lpush_law [OF s] ok stored_ok_ops(1) [OF ok j(3,1)] by (intro invar_step [OF assms(1)]) (auto simp: w')
  with lpush_law [OF s] redis_places_ops(1) [of unmarshal, OF j(1)] j(2) e1(2) show ?thesis
    by (auto simp: redis_where_def w' wrap_err_def)
qed

lemma redis_zrem_contract:
  assumes "redis_invar data unmarshal utf8 w" "with_client (rc_ZRem R c k d) w = (e, w')"
  shows "redis_invar data unmarshal utf8 w' \<and> same_ids w w' \<and>
    (redis_where data unmarshal w' = redis_places unmarshal (zrem k d (data (rb_client (brk w)))) \<or>
     e \<noteq> None \<and> redis_where data unmarshal w' = redis_where data unmarshal w)"
proof -
  obtain s where s: "rc_ZRem R c k d (rb_client (brk w)) = (e, s)"
    and w': "w' = w\<lparr>brk := (brk w)\<lparr>rb_client := s\<rparr>\<rparr>" using assms(2) by (auto elim: with_client_cases)
  have ok: "stored_ok unmarshal (data (rb_client (brk w)))" using assms(1) by (simp add: redis_invar_def)
  have "redis_invar data unmarshal utf8 w' \<and> same_ids w w'"
    using zrem_law [OF s] ok stored_ok_ops(3) [OF ok] by (intro invar_step [OF assms(1)]) (auto simp: w')
  with zrem_law [OF s] show ?thesis by (auto simp: redis_where_def w')
qed

lemma redis_zadd_contract:
  assumes "redis_invar data unmarshal utf8 w" "with_client (rc_ZAdd R c k sc d) w = (e, w')"
    and "stored_ok unmarshal (zadd k sc d (data (rb_client (brk w))))"
  shows "redis_invar data unmarshal utf8 w' \<and> same_ids w w' \<and>
    (redis_where data unmarshal w' = redis_places unmarshal (zadd k sc d (data (rb_client (brk w)))) \<or>
     e \<noteq> None \<and> redis_where data unmarshal w' = redis_where data unmarshal w)"
proof -
  obtain s where s: "rc_ZAdd R c k sc d (rb_client (brk w)) = (e, s)"
    and w': "w' = w\<lparr>brk := (brk w)\<lparr>rb_client := s\<rparr>\<rparr>" using assms(2) by (auto elim: with_client_cases)
  have ok: "stored_ok unmarshal (data (rb_client (brk w)))" using assms(1) by (simp add: redis_invar_def)
  have "redis_invar data unmarshal utf8 w' \<and> same_ids w w'"
    using zadd_law [OF s] ok assms(3) by (intro invar_step [OF assms(1)]) (auto simp: w')
  with zadd_law [OF s] show ?thesis by (auto simp: redis_where_def w')
qed

lemma redis_record_contract:
  assumes "redis_invar data unmarshal utf8 w" "k = ''stat:processed'' \<or> k = ''stat:failed''"
    "recordStatEntry R k r w = (e, w')"
  shows "redis_invar data unmarshal utf8 w' \<and> same_ids w w' \<and>
    redis_where data unmarshal w' = redis_where data unmarshal w"
proof -
  let ?w1 = "snd (time_Now w)"
  obtain e2 w2 where w2: "with_client (rc_ZAdd R (rb_ctx ?w1) k (of_int (Unix (clock w 0))) (JID (heap w r))) ?w1 = (e2, w2)"
    by (cases "with_client (rc_ZAdd R (rb_ctx ?w1) k (of_int (Unix (clock w 0))) (JID (heap w r))) ?w1")
  obtain e3 where "with_client (rc_ZRemRangeByRank R (rb_ctx w2) k 0 (- 100001)) w2 = (e3, w')"
    using assms(3) w2 by (auto simp: recordStatEntry_def Let_def case_prod_beta prod_eq_iff)
  then obtain s where s: "rc_ZRemRangeByRank R (rb_ctx w2) k 0 (- 100001) (rb_client (brk w2)) = (e3, s)"
    and w': "w' = w2\<lparr>brk := (brk w2)\<lparr>rb_client := s\<rparr>\<rparr>" by (auto elim: with_client_cases)
  have i1: "redis_invar data unmarshal utf8 ?w1" "redis_where data unmarshal ?w1 = redis_where data unmarshal w"
    using redis_cong [of ?w1 w] assms(1) by (auto simp: same_ids_def)
  then have i2: "redis_invar data unmarshal utf8 w2 \<and> same_ids ?w1 w2 \<and>
      redis_where data unmarshal w2 = redis_where data unmarshal w"
    using redis_zadd_contract [OF i1(1) w2] redis_places_stat [OF assms(2)]
    by (auto simp: redis_invar_def redis_where_def)
  have ok: "stored_ok unmarshal (data (rb_client (brk w2)))" using i2 by (simp add: redis_invar_def)
  have "redis_invar data unmarshal utf8 w' \<and> same_ids w2 w'"
    using ztrim_law [OF s] ok stored_ok_ztrim [OF ok] i2 by (intro invar_step) (auto simp: w')
  moreover have "redis_where data unmarshal w' = redis_where data unmarshal w2"
    using ztrim_law [OF s] redis_places_stat(1) [OF assms(2)] by (auto simp: w' redis_where_def)
  moreover have "same_ids w w2" using i2 by (simp add: same_ids_def)
  ultimately show ?thesis using i2 same_ids_trans by auto
qed

lemma redis_ack_contract:
  assumes "redis_invar data unmarshal utf8 w" "r < next_ref w" "redis_Ack R marshal r w = (e, w')"
  shows "redis_invar data unmarshal utf8 w' \<and> same_ids w w' \<and>
    unlease_le (JID (heap w r)) (redis_where data unmarshal w) (redis_where data unmarshal w')"
proof (cases "rawOrSerialize marshal (heap w r)")
  case (Inl err)
  then show ?thesis using assms by (auto simp: redis_Ack_def unlease_le_def places_le_def)
next
  case (Inr d)
  obtain j where j: "unmarshal d = Inr j" "JID j = JID (heap w r)" "d \<noteq> []"
    using payload_decodes [OF assms(1,2)] Inr by blast
  have "with_client (rc_ZRem R (rb_ctx w) redisProcessingKey d) w = (e, w')"
    using assms(3) Inr by (simp add: redis_Ack_def)
  from redis_zrem_contract [OF assms(1) this] redis_places_zrem(1) [of unmarshal, OF j(1)] j(2) show ?thesis
    by (auto simp: redis_where_def unlease_le_refl)
qed

lemma redis_remove_retry_contract:
  assumes "redis_invar data unmarshal utf8 w" "r < next_ref w" "redis_RemoveFromRetry R marshal r w = (e, w')"
  shows "redis_invar data unmarshal utf8 w' \<and> same_ids w w' \<and>
    places_le ((redis_where data unmarshal w)\<lparr>retrying := retrying (redis_where data unmarshal w) - {JID (heap w r)}\<rparr>)
      (redis_where data unmarshal w')"
proof (cases "ToJSON marshal (heap w r)")
  case (Inl err)
  then show ?thesis using assms by (auto simp: redis_RemoveFromRetry_def places_le_def)
next
  case (Inr d)
  obtain j where j: "unmarshal d = Inr j" "JID j = JID (heap w r)" "d \<noteq> []"
    using payload_decodes [OF assms(1,2)] Inr by blast
  have "with_client (rc_ZRem R (rb_ctx w) ''retry'' d) w = (e, w')"
    using assms(3) Inr by (simp add: redis_RemoveFromRetry_def)
  from redis_zrem_contract [OF assms(1) this] redis_places_zrem(2) [of unmarshal, OF j(1)] j(2) show ?thesis
    by (auto simp: redis_where_def places_le_less_retry)
qed

lemma redis_add_retry_contract:
  assumes "redis_invar data unmarshal utf8 w" "r < next_ref w" "redis_AddToRetry R marshal r t w = (e, w')"
  shows "redis_invar data unmarshal utf8 w' \<and> same_ids w w' \<and>
    (redis_where data unmarshal w' = put_retrying (JID (heap w r)) (redis_where data unmarshal w) \<or>
     e \<noteq> None \<and> redis_where data unmarshal w' = redis_where data unmarshal w)"
proof (cases "ToJSON marshal (heap w r)")
  case (Inl err)
  then show ?thesis using assms by (auto simp: redis_AddToRetry_def)
next
  case (Inr d)
  obtain j where j: "unmarshal d = Inr j" "JID j = JID (heap w r)" "d \<noteq> []"
    using payload_decodes [OF assms(1,2)] Inr by blast
  have "with_client (rc_ZAdd R (rb_ctx w) ''retry'' (of_int (Unix t)) d) w = (e, w')"
    using assms(3) Inr by (simp add: redis_AddToRetry_def)
  from redis_zadd_contract [OF assms(1) this] show ?thesis
    using assms(1) stored_ok_ops(2) [of unmarshal, OF _ j(3,1)] redis_places_ops(2) [of unmarshal, OF j(1)] j(2)
    by (simp add: redis_invar_def redis_where_def)
qed

lemma redis_add_dead_contract:
  assumes "redis_invar data unmarshal utf8 w" "r < next_ref w" "redis_AddToDead R marshal r w = (e, w')"
  shows "redis_invar data unmarshal utf8 w' \<and> same_ids w w' \<and>
    (redis_where data unmarshal w' = put_buried (JID (heap w r)) (redis_where data unmarshal w) \<or>
     e \<noteq> None \<and> redis_where data unmarshal w' = redis_where data unmarshal w)"
proof (cases "ToJSON marshal (heap w r)")
  case (Inl err)
  then show ?thesis using assms by (auto simp: redis_AddToDead_def)
next
  case (Inr d)
  obtain j where j: "unmarshal d = Inr j" "JID j = JID (heap w r)" "d \<noteq> []"
    using payload_decodes [OF assms(1,2)] Inr by blast
  let ?w1 = "snd (time_Now w)"
  have i1: "redis_invar data unmarshal utf8 ?w1" "brk ?w1 = brk w" "same_ids w ?w1"
    using redis_cong [of ?w1 w] assms(1) by (auto simp: same_ids_def)
  have "with_client (rc_ZAdd R (rb_ctx ?w1) ''dead'' (of_int (Unix (clock w 0))) d) ?w1 = (e, w')"
    using assms(3) Inr by (simp add: redis_AddToDead_def case_prod_beta)
  from redis_zadd_contract [OF i1(1) this] show ?thesis
    using i1 stored_ok_ops(2) [of unmarshal, OF _ j(3,1)] redis_places_ops(3) [of unmarshal, OF j(1)] j(2)
      same_ids_trans [OF i1(3)]
    by (simp add: redis_invar_def redis_where_def)
qed

lemma redis_fresh:
  assumes "redis_invar data unmarshal utf8 w" "brk w' = brk w" "same_ids w w'"
    and "\<forall>r. next_ref w \<le> r \<and> r < next_ref w' \<longrightarrow> raw_ok unmarshal utf8 (heap w' r)"
  shows "redis_invar data unmarshal utf8 w' \<and> redis_where data unmarshal w' = redis_where data unmarshal w"
proof -
  have "raw_ok unmarshal utf8 (heap w' r)" if "r < next_ref w'" for r
    using assms that same_ids_JID [OF assms(3), of r] same_ids_RawPayload [OF assms(3), of r]
    by (cases "r < next_ref w") (auto simp: redis_invar_def raw_ok_def)
  with assms(1,2) show ?thesis by (simp add: redis_invar_def redis_where_def)
qed

lemma redis_get_retry_contract:
  assumes "redis_invar data unmarshal utf8 w" "redis_GetRetryJobs R unmarshal n w = (x, w')"
  shows "redis_invar data unmarshal utf8 w' \<and> same_ids w w' \<and>
    redis_where data unmarshal w' = redis_where data unmarshal w \<and>
    (\<forall>rs. x = Inr rs \<longrightarrow>
       (\<forall>r \<in> set rs. r < next_ref w' \<and> JID (heap w' r) \<in> retrying (redis_where data unmarshal w)))"
proof -
  let ?w1 = "snd (time_Now w)"
  obtain y w2 where y: "with_client (rc_ZRangeByScore R (rb_ctx ?w1) ''retry'' 0 (of_int (Unix (clock w 0)))
      (retry_limit n)) ?w1 = (y, w2)"
    by (cases "with_client (rc_ZRangeByScore R (rb_ctx ?w1) ''retry'' 0 (of_int (Unix (clock w 0)))
      (retry_limit n)) ?w1")
  then obtain s where s: "rc_ZRangeByScore R (rb_ctx ?w1) ''retry'' 0 (of_int (Unix (clock w 0)))
      (retry_limit n) (rb_client (brk ?w1)) = (y, s)" and w2: "w2 = ?w1\<lparr>brk := (brk ?w1)\<lparr>rb_client := s\<rparr>\<rparr>"
    by (auto elim: with_client_cases)
  have pos: "0 < retry_limit n" by (simp add: retry_limit_def Let_def)
  note law = zrange_law [OF pos s]
  have i2: "redis_invar data unmarshal utf8 w2" "same_ids w w2" "redis_where data unmarshal w2 = redis_where data unmarshal w"
    using assms(1) law by (simp_all add: w2 redis_invar_def redis_where_def same_ids_def)
  show ?thesis
  proof (cases y)
    case (Inl e)
    then have "w' = w2" "\<forall>rs. x \<noteq> Inr rs" using assms(2) y by (auto simp: redis_GetRetryJobs_def case_prod_beta)
    with i2 show ?thesis by auto
  next
    case (Inr ds)
    obtain rs where rs: "x = Inr rs" "retry_decode unmarshal ds w2 = (rs, w')"
      using assms(2) y Inr by (auto simp: redis_GetRetryJobs_def case_prod_beta split: prod.splits)
    have sub: "set ds \<subseteq> members (data (rb_client (brk w))) ''retry''"
      using law Inr set_zrange by (simp add: members_def)
    then have dec: "\<forall>d \<in> set ds. \<exists>j. unmarshal d = Inr j"
      using assms(1) by (auto simp: redis_invar_def stored_ok_def)
    note eff = retry_decode_effect [OF rs(2) dec]
    have ids: "same_ids w2 w'" using eff by (simp add: same_ids_def)
    have new: "\<exists>d \<in> set ds. \<exists>j. unmarshal d = Inr j \<and> heap w' r = clamp_decoded j"
      if "next_ref w2 \<le> r" "r < next_ref w'" for r
      using eff that nth_mem [of "r - next_ref w2" ds] by (metis add_diff_inverse_nat less_diff_conv2 not_less add.commute)
    then have "raw_ok unmarshal utf8 (heap w' r) \<and> JID (heap w' r) \<in> retrying (redis_where data unmarshal w)"
      if "next_ref w2 \<le> r" "r < next_ref w'" for r
      using that sub unmarshal_clean by (fastforce simp: raw_ok_def redis_where_def redis_places_def ids_of_def)
    with redis_fresh [OF i2(1) _ ids] eff i2 same_ids_trans [OF i2(2) ids] rs(1) show ?thesis by auto
  qed
qed

lemma lease_script:
  assumes "data s = D"
  shows "rd_list D k = [] \<Longrightarrow> fst (dequeueAndLeaseScript R k pk sc s) = None \<and>
      data (snd (dequeueAndLeaseScript R k pk sc s)) = D"
    "rd_list D k \<noteq> [] \<Longrightarrow> fst (dequeueAndLeaseScript R k pk sc s) = Some [k, last (rd_list D k)] \<and>
      data (snd (dequeueAndLeaseScript R k pk sc s)) = zadd pk sc (last (rd_list D k)) (rpop k D)"
proof -
  obtain v s1 where v: "call_RPOP R k s = (v, s1)" by (cases "call_RPOP R k s")
  note law = rpop_call [OF v, unfolded assms]
  show "rd_list D k = [] \<Longrightarrow> fst (dequeueAndLeaseScript R k pk sc s) = None \<and>
      data (snd (dequeueAndLeaseScript R k pk sc s)) = D"
    using v law by (simp add: dequeueAndLeaseScript_def rpop_empty)
  show "rd_list D k \<noteq> [] \<Longrightarrow> fst (dequeueAndLeaseScript R k pk sc s) = Some [k, last (rd_list D k)] \<and>
      data (snd (dequeueAndLeaseScript R k pk sc s)) = zadd pk sc (last (rd_list D k)) (rpop k D)"
    using v law by (simp add: dequeueAndLeaseScript_def zadd_call)
qed

lemma lease_run:
  assumes inv: "redis_invar data unmarshal utf8 w"
    and run: "with_client (rc_Run R c (dequeueAndLeaseScript R (queueKey q) redisProcessingKey sc)) w = (x, w')"
  shows "redis_invar data unmarshal utf8 w' \<and> same_ids w w' \<and>
    dequeue_le (redis_where data unmarshal w) (redis_where data unmarshal w') \<and>
    (x = Inr None \<longrightarrow> redis_where data unmarshal w' = redis_where data unmarshal w) \<and>
    (\<forall>res. x = Inr (Some res) \<longrightarrow> (\<exists>d j. res = [queueKey q, d] \<and> d \<noteq> [] \<and> unmarshal d = Inr j \<and>
       JID j \<in> leased (redis_where data unmarshal w') \<and>
       pending (redis_where data unmarshal w) \<subseteq> insert (JID j) (pending (redis_where data unmarshal w'))))"
proof -
  let ?D = "data (rb_client (brk w))" and ?f = "dequeueAndLeaseScript R (queueKey q) redisProcessingKey sc"
  obtain s where s: "rc_Run R c ?f (rb_client (brk w)) = (x, s)" and w': "w' = w\<lparr>brk := (brk w)\<lparr>rb_client := s\<rparr>\<rparr>"
    using run by (auto elim: with_client_cases)
  from run_law [OF s] obtain s0 where s0: "data s0 = ?D"
    "x = Inr (fst (?f s0)) \<and> data s = data (snd (?f s0)) \<or>
        (\<exists>e. x = Inl e) \<and> (data s = ?D \<or> data s = data (snd (?f s0)))" by auto
  have ok: "stored_ok unmarshal ?D" using inv by (simp add: redis_invar_def)
  have out: "redis_invar data unmarshal utf8 w' \<and> same_ids w w'" if "stored_ok unmarshal (data s)"
    using that by (intro invar_step [OF inv]) (simp_all add: w')
  show ?thesis
  proof (cases "rd_list ?D (queueKey q) = []")
    case True
    with lease_script(1) [OF s0(1), of "queueKey q" redisProcessingKey sc] s0 have "data s = ?D" "\<forall>res. x \<noteq> Inr (Some res)"
      by auto
    with out ok show ?thesis by (simp add: redis_where_def w')
  next
    case False
    let ?D' = "zadd redisProcessingKey sc (last (rd_list ?D (queueKey q))) (rpop (queueKey q) ?D)"
    obtain j where j: "unmarshal (last (rd_list ?D (queueKey q))) = Inr j" "stored_ok unmarshal ?D'"
      "dequeue_le (redis_places unmarshal ?D) (redis_places unmarshal ?D')" "JID j \<in> leased (redis_places unmarshal ?D')"
      "last (rd_list ?D (queueKey q)) \<noteq> []"
      "pending (redis_places unmarshal ?D) \<subseteq> insert (JID j) (pending (redis_places unmarshal ?D'))"
      using lease_places [OF ok False refl] by blast
    from lease_script(2) [OF s0(1), of "queueKey q" redisProcessingKey sc] s0 False
    have "data s = ?D' \<and> x \<noteq> Inr None \<and> (\<forall>res. x = Inr (Some res) \<longrightarrow> res = [queueKey q, last (rd_list ?D (queueKey q))]) \<or>
        data s = ?D \<and> (\<forall>res. x \<noteq> Inr (Some res))" by auto
    with out ok j show ?thesis by (auto simp: redis_where_def w')
  qed
qed

lemma redis_scan_contract:
  assumes "redis_invar data unmarshal utf8 w" "redis_scan R unmarshal qs w = (x, w')"
  shows "redis_invar data unmarshal utf8 w' \<and> same_ids w w' \<and>
    dequeue_le (redis_where data unmarshal w) (redis_where data unmarshal w') \<and>
    (\<forall>r q. x = Some (Inr (r, q)) \<longrightarrow>
       r < next_ref w' \<and> q \<in> set qs \<and> JID (heap w' r) \<in> leased (redis_where data unmarshal w') \<and>
       pending (redis_where data unmarshal w) \<subseteq> insert (JID (heap w' r)) (pending (redis_where data unmarshal w'))) \<and>
    (x = None \<longrightarrow> pending (redis_where data unmarshal w) \<subseteq> pending (redis_where data unmarshal w'))"
  using assms
proof (induction qs arbitrary: w)
  case (Cons q qs)
  let ?w1 = "snd (time_Now w)" and ?sc = "of_int (Unix (clock w 0 + DefaultLeaseDuration)) :: rat"
  obtain y w2 where run: "with_client (rc_Run R (rb_ctx ?w1)
      (dequeueAndLeaseScript R (queueKey q) redisProcessingKey ?sc)) ?w1 = (y, w2)"
    by (cases "with_client (rc_Run R (rb_ctx ?w1) (dequeueAndLeaseScript R (queueKey q) redisProcessingKey ?sc)) ?w1")
  have i1: "redis_invar data unmarshal utf8 ?w1" "redis_where data unmarshal ?w1 = redis_where data unmarshal w"
    "same_ids w ?w1"
    using redis_cong [of ?w1 w] Cons.prems(1) by (auto simp: same_ids_def)
  note law = lease_run [OF i1(1) run]
  have i2: "redis_invar data unmarshal utf8 w2" "same_ids w w2"
    "dequeue_le (redis_where data unmarshal w) (redis_where data unmarshal w2)"
    using law i1 same_ids_trans [OF i1(3)] by auto
  show ?case
  proof (cases y)
    case (Inl e)
    then have "w' = w2" "x \<noteq> None" "\<forall>r q. x \<noteq> Some (Inr (r, q))"
      using Cons.prems(2) run by (auto simp: case_prod_beta Let_def)
    with i2 show ?thesis by auto
  next
    case (Inr res)
    show ?thesis
    proof (cases res)
      case None
      then have "redis_scan R unmarshal qs w2 = (x, w')"
        using Cons.prems(2) run Inr by (auto simp: case_prod_beta Let_def)
      moreover have "redis_where data unmarshal w2 = redis_where data unmarshal w" using law Inr None i1(2) by simp
      ultimately show ?thesis
        using Cons.IH [OF i2(1)] i2 same_ids_trans [OF i2(2)] dequeue_le_trans [OF i2(3)] by auto
    next
      case (Some l)
      obtain d j where d: "l = [queueKey q, d]" "d \<noteq> []" "unmarshal d = Inr j"
        "JID j \<in> leased (redis_where data unmarshal w2)"
        "pending (redis_where data unmarshal w) \<subseteq> insert (JID j) (pending (redis_where data unmarshal w2))"
        using law Inr Some unfolding i1(2) by blast
      let ?j = "(clamp_decoded j)\<lparr>RawPayload := d\<rparr>"
      have x: "x = Some (Inr (next_ref w2, q))" "w' = snd (alloc_job ?j w2)"
        using Cons.prems(2) run Inr Some d
        by (auto simp: case_prod_beta Let_def FromJSON_def alloc_job_def queueKey_def)
      have "raw_ok unmarshal utf8 ?j" using d(3) unmarshal_clean [OF d(3)] by (simp add: raw_ok_def)
      from redis_alloc [OF i2(1) this] x i2 same_ids_trans [OF i2(2)] d(4,5) show ?thesis
        by (auto simp: alloc_job_def)
    qed
  qed
qed simp

lemma redis_dequeue_contract:
  assumes "redis_invar data unmarshal utf8 w" "redis_Dequeue R unmarshal qs d w = Some (x, w')"
  shows "redis_invar data unmarshal utf8 w' \<and> same_ids w w' \<and>
    dequeue_le (redis_where data unmarshal w) (redis_where data unmarshal w') \<and>
    (\<forall>r q. x = Inr (Some (r, q)) \<longrightarrow>
       r < next_ref w' \<and> q \<in> set qs \<and> JID (heap w' r) \<in> leased (redis_where data unmarshal w')) \<and>
    (\<forall>v. x = Inr v \<longrightarrow>
       pending (redis_where data unmarshal w) \<subseteq> pending (redis_where data unmarshal w') \<union> dequeued w' x)"
proof -
  let ?p = "\<lambda>a. pending (redis_where data unmarshal a)"
  let ?J = "\<lambda>a. redis_invar data unmarshal utf8 a \<and> same_ids w a \<and>
    dequeue_le (redis_where data unmarshal w) (redis_where data unmarshal a)"
  let ?I = "\<lambda>a. ?J a \<and> ?p w \<subseteq> ?p a"
  let ?Q = "\<lambda>x a. ?J a \<and> (\<forall>r q. x = Inr (Some (r, q)) \<longrightarrow>
      r < next_ref a \<and> q \<in> set qs \<and> JID (heap a r) \<in> leased (redis_where data unmarshal a)) \<and>
      (\<forall>v. x = Inr v \<longrightarrow> ?p w \<subseteq> ?p a \<union> dequeued a x)"
  have tick: "?I (snd (time_Now a))" if "?I a" for a
    using redis_cong [of "snd (time_Now a)" a] that same_ids_trans [of w a] by (auto simp: same_ids_def)
  have scan: "?J b \<and> (\<forall>r q. y = Some (Inr (r, q)) \<longrightarrow>
      r < next_ref b \<and> q \<in> set qs \<and> JID (heap b r) \<in> leased (redis_where data unmarshal b) \<and>
      ?p w \<subseteq> insert (JID (heap b r)) (?p b)) \<and> (y = None \<longrightarrow> ?p w \<subseteq> ?p b)"
    if "?I a" "redis_scan R unmarshal qs a = (y, b)" for a y b
    using redis_scan_contract [of a qs y b] that same_ids_trans [of w a b] dequeue_le_trans by blast
  have poll: "redis_poll R unmarshal qs (clock w 0 + d) (snd (time_Now w)) = Some (x, w')"
    using assms(2) by (simp add: redis_Dequeue_def case_prod_beta)
  have "?Q (fst (x, w')) (snd (x, w'))"
  proof (rule redis_poll_rule [OF poll, where I = ?I])
    show "?I (snd (time_Now w))" by (rule tick) (simp add: assms(1))
    show "?Q (map_sum id Some y) b" if "?I a" "redis_scan R unmarshal qs a = (Some y, b)" for a y b
      using scan [OF that] by (cases y) auto
    show "?I (snd (time_Now b)) \<and> ?Q (Inr None) (snd (time_Now b))"
      if "?I a" "redis_scan R unmarshal qs a = (None, b)" for a b
      using tick [of b] scan [OF that] by simp
  qed
  then show ?thesis by simp
qed

text \<open>The reap script removes exactly the members it returns.\<close>

lemma data_fold_zrem: "data (fold (call_ZREM R k) ms s) = fold (zrem k) ms (data s)"
  by (induction ms arbitrary: s) (simp_all add: zrem_call)

lemma reap_script:
  assumes "data s = D"
  shows "fst (reapScript R k sc n s) = Some (zrange 0 sc n (rd_zset D k))"
    "data (snd (reapScript R k sc n s)) = fold (zrem k) (zrange 0 sc n (rd_zset D k)) D"
  using assms by (simp_all add: reapScript_def Let_def zrange_call data_fold_zrem)

lemma redis_reap_contract:
  assumes "redis_invar data unmarshal utf8 w" "redis_ReapOrphanedJobs R unmarshal d w = (x, w')"
  shows "redis_invar data unmarshal utf8 w' \<and> same_ids w w' \<and>
    (\<forall>rs. x = Inr rs \<longrightarrow> (\<forall>r \<in> set rs. r < next_ref w') \<and>
       places_le ((redis_where data unmarshal w)\<lparr>leased := leased (redis_where data unmarshal w) - JID ` heap w' ` set rs\<rparr>)
         (redis_where data unmarshal w')) \<and>
    (\<forall>e. x = Inl e \<longrightarrow> places_le ((redis_where data unmarshal w)\<lparr>leased := {}\<rparr>) (redis_where data unmarshal w'))"
proof -
  let ?w1 = "snd (time_Now w)" and ?sc = "of_int (Unix (clock w 0)) :: rat"
  let ?D = "data (rb_client (brk w))" and ?f = "reapScript R redisProcessingKey ?sc 100"
  let ?ds = "zrange 0 ?sc 100 (rd_zset ?D redisProcessingKey)"
  obtain y w2 where run: "with_client (rc_Run R (rb_ctx ?w1) ?f) ?w1 = (y, w2)"
    by (cases "with_client (rc_Run R (rb_ctx ?w1) ?f) ?w1")
  then obtain s where s: "rc_Run R (rb_ctx ?w1) ?f (rb_client (brk w)) = (y, s)"
    and w2: "w2 = ?w1\<lparr>brk := (brk ?w1)\<lparr>rb_client := s\<rparr>\<rparr>" by (auto elim: with_client_cases)
  from run_law [OF s] obtain s0 where s0: "data s0 = ?D" "y = Inr (fst (?f s0)) \<and> data s = data (snd (?f s0)) \<or>
      (\<exists>e. y = Inl e) \<and> (data s = ?D \<or> data s = data (snd (?f s0)))" by auto
  let ?D' = "fold (zrem redisProcessingKey) ?ds ?D"
  have cases: "y = Inr (Some ?ds) \<and> data s = ?D' \<or> (\<exists>e. y = Inl e) \<and> (data s = ?D \<or> data s = ?D')"
    using s0(2) reap_script [OF s0(1)] by auto
  have ok: "stored_ok unmarshal ?D" using assms(1) by (simp add: redis_invar_def)
  have ok': "stored_ok unmarshal ?D'" by (rule stored_ok_zrems [OF ok])
  have i2: "redis_invar data unmarshal utf8 w2 \<and> same_ids w w2"
    using cases ok ok' by (intro invar_step [OF assms(1)]) (auto simp: w2)
  have le: "places_le ((redis_places unmarshal ?D)\<lparr>leased := leased (redis_places unmarshal ?D) - ids_of unmarshal (set ?ds)\<rparr>)
      (redis_places unmarshal ?D')" by (rule redis_places_zrems)
  show ?thesis
  proof (cases y)
    case (Inl e)
    then have "w' = w2" "\<exists>e. x = Inl e" using assms(2) run by (auto simp: redis_ReapOrphanedJobs_def case_prod_beta Let_def)
    moreover have "places_le ((redis_where data unmarshal w)\<lparr>leased := {}\<rparr>) (redis_where data unmarshal w2)"
      using cases le Inl by (auto simp: redis_where_def w2 places_le_def)
    ultimately show ?thesis using i2 by auto
  next
    case (Inr z)
    then have z: "z = Some ?ds" "data s = ?D'" using cases by auto
    obtain rs where rs: "x = Inr rs" "reap_decode unmarshal ?ds w2 = (rs, w')"
      using assms(2) run Inr z by (auto simp: redis_ReapOrphanedJobs_def case_prod_beta Let_def split: prod.splits)
    have dec: "\<forall>d \<in> set ?ds. \<exists>j. unmarshal d = Inr j"
      using ok set_zrange [of 0 ?sc 100 "rd_zset ?D redisProcessingKey"] by (auto simp: stored_ok_def members_def)
    note eff = reap_decode_effect [OF rs(2) dec]
    have "raw_ok unmarshal utf8 (heap w' r)" if "next_ref w2 \<le> r" "r < next_ref w'" for r
      using eff that unmarshal_clean unfolding raw_ok_def by metis
    with redis_fresh [of w2 w'] eff i2
    have i3: "redis_invar data unmarshal utf8 w'" "redis_where data unmarshal w' = redis_where data unmarshal w2" by blast+
    have "places_le ((redis_where data unmarshal w)\<lparr>leased := leased (redis_where data unmarshal w) - JID ` heap w' ` set rs\<rparr>)
         (redis_where data unmarshal w')"
      using le eff i3(2) z(2) by (simp add: redis_where_def w2)
    with i3(1) eff i2 rs(1) same_ids_trans [of w w2 w'] show ?thesis by auto
  qed
qed

end

sublocale redis_broker \<subseteq> broker_contract "redisB R marshal unmarshal" "redis_where data unmarshal"
  "redis_invar data unmarshal utf8" "redis_admissible utf8"
proof (unfold_locales, goal_cases)
  case (1 w' w)
  then show ?case by (intro redis_cong)
next
  case (2 w j)
  then show ?case using redis_alloc [of w j] by (auto simp: redis_admissible_def raw_ok_def)
next
  case (3 w r c q e w')
  then show ?case using redis_enqueue_contract by (simp add: redisB_def)
next
  case (4 w qs d y w')
  then show ?case using redis_dequeue_contract by (simp add: redisB_def)
next
  case (5 w r e w')
  then show ?case using redis_ack_contract by (simp add: redisB_def)
next
  case (6 w r t e w')
  then show ?case using redis_add_retry_contract by (simp add: redisB_def)
next
  case (7 w r e w')
  then show ?case using redis_add_dead_contract by (simp add: redisB_def)
next
  case (8 w r e w')
  then show ?case
    using redis_record_contract [of w _ r e w'] by (auto simp: redisB_def redis_RecordSuccess_def redis_RecordFailure_def)
next
  case (9 w n x w')
  then show ?case using redis_get_retry_contract by (simp add: redisB_def)
next
  case (10 w r e w')
  then show ?case using redis_remove_retry_contract by (simp add: redisB_def)
next
  case (11 w d x w')
  then show ?case using redis_reap_contract by (simp add: redisB_def)
qed

end
