(* ===== verification/Redis_Sim.thy ===== *)
theory Redis_Sim
  imports Redis_Broker
begin

text \<open>
  A server and a codec that satisfy what \<^verbatim>\<open>Redis_Broker\<close> assumes of Redis and of JSON: the
  hypotheses of the Redis properties can hold, and the witnesses are evaluated here. The simulated
  client drops requests and replies as a given stream of faults says, so failing calls with and
  without effect are part of the instance.
\<close>

section \<open>The server\<close>

datatype fault = Fine | NoRequest | NoReply

record sim =
  sim_data :: redis_data
  sim_faults :: "nat \<Rightarrow> fault"
  sim_closed :: bool

definition sim_cmd :: "ctx_error option \<Rightarrow> (sim \<Rightarrow> 'a \<times> sim) \<Rightarrow> sim \<Rightarrow> (error + 'a) \<times> sim" where
  "sim_cmd c f s =
     (let s1 = s\<lparr>sim_faults := (\<lambda>i. sim_faults s (Suc i))\<rparr> in
      if c \<noteq> None then (Inl (CtxErr (the c)), s)
      else if sim_closed s then (Inl (UserError 0), s)
      else case sim_faults s 0 of
             Fine \<Rightarrow> map_prod Inr id (f s1)
           | NoRequest \<Rightarrow> (Inl (UserError 1), s1)
           | NoReply \<Rightarrow> (Inl (UserError 2), snd (f s1)))"

definition sim_upd :: "(redis_data \<Rightarrow> redis_data) \<Rightarrow> sim \<Rightarrow> sim" where
  "sim_upd f s = s\<lparr>sim_data := f (sim_data s)\<rparr>"

definition err_only :: "(error + 'a) \<times> sim \<Rightarrow> error option \<times> sim" where
  "err_only = map_prod (case_sum Some (\<lambda>_. None)) id"

definition sim_read :: "ctx_error option \<Rightarrow> (redis_data \<Rightarrow> 'a) \<Rightarrow> sim \<Rightarrow> (error + 'a) \<times> sim" where
  "sim_read c f = sim_cmd c (\<lambda>s. (f (sim_data s), s))"

definition sim_write :: "ctx_error option \<Rightarrow> (redis_data \<Rightarrow> redis_data) \<Rightarrow> sim \<Rightarrow> error option \<times> sim" where
  "sim_write c f s = err_only (sim_cmd c (\<lambda>s. ((), sim_upd f s)) s)"

text \<open>The simulated \<open>SCAN\<close> knows one queue and answers in one page.\<close>

definition simR :: "sim Redis" where
  "simR =
     \<lparr>call_RPOP = (\<lambda>k s. let l = rd_list (sim_data s) k in
        (if l = [] then None else Some (last l), sim_upd (rpop k) s)),
      call_ZADD = (\<lambda>k sc m. sim_upd (zadd k sc m)),
      call_ZRANGEBYSCORE = (\<lambda>k lo hi n s. zrange lo hi n (rd_zset (sim_data s) k)),
      call_ZREM = (\<lambda>k m. sim_upd (zrem k m)),
      rc_Run = sim_cmd,
      rc_LPush = (\<lambda>c k m. sim_write c (lpush k m)),
      rc_LLen = (\<lambda>c k. sim_read c (\<lambda>D. int (length (rd_list D k)))),
      rc_Del = (\<lambda>c k. sim_write c (del k)),
      rc_ZAdd = (\<lambda>c k sc m. sim_write c (zadd k sc m)),
      rc_ZRem = (\<lambda>c k m. sim_write c (zrem k m)),
      rc_ZCard = (\<lambda>c k. sim_read c (\<lambda>D. int (length (rd_zset D k)))),
      rc_ZRangeByScore = (\<lambda>c k lo hi n. sim_read c (\<lambda>D. zrange lo hi (nat n) (rd_zset D k))),
      rc_ZRemRangeByRank = (\<lambda>c k start stop. sim_write c (ztrim k stop)),
      rc_Scan = (\<lambda>c cursor pat n. sim_read c (\<lambda>D. ([''queue:default''], 0))),
      rc_Ping = (\<lambda>c s. sim_write c id s),
      rc_Close = (\<lambda>s. (None, s\<lparr>sim_closed := True\<rparr>))\<rparr>"

lemma sim_cmd_law:
  assumes "sim_cmd c f s = (x, s')"
  shows "\<exists>s0. sim_data s0 = sim_data s \<and>
    (x = Inr (fst (f s0)) \<and> s' = snd (f s0) \<or> (\<exists>e. x = Inl e) \<and> (sim_data s' = sim_data s \<or> s' = snd (f s0)))"
  using assms
  by (intro exI [of _ "s\<lparr>sim_faults := (\<lambda>i. sim_faults s (Suc i))\<rparr>"])
    (auto simp: sim_cmd_def Let_def map_prod_def split: if_splits fault.splits prod.splits)

lemma sim_write_law:
  "sim_write c f s = (e, s') \<Longrightarrow> sim_data s' = f (sim_data s) \<or> e \<noteq> None \<and> sim_data s' = sim_data s"
  unfolding sim_write_def err_only_def
  by (cases "sim_cmd c (\<lambda>s. ((), sim_upd f s)) s")
    (auto dest!: sim_cmd_law simp: sim_upd_def)

lemma sim_read_law:
  "sim_read c f s = (x, s') \<Longrightarrow> sim_data s' = sim_data s \<and> (\<forall>y. x = Inr y \<longrightarrow> y = f (sim_data s))"
  unfolding sim_read_def by (auto dest!: sim_cmd_law)

lemma sim_redis_server: "redis_server simR sim_data"
proof (unfold_locales, goal_cases)
  case (5 c f s x s')
  then show ?case using sim_cmd_law [of c f s x s'] by (auto simp: simR_def)
next
  case (11 cnt c k lo hi s y s')
  then show ?case using sim_read_law [of c _ s y s'] by (auto simp: simR_def)
qed (use sim_write_law in \<open>auto simp: simR_def Let_def sim_upd_def\<close>)

section \<open>The codec\<close>

text \<open>
  Each field is a string written with its length in front; numbers are written in unary. Only jobs
  without arguments have an encoding, the others fail like a value \<open>json.Marshal\<close> does not support.
\<close>

definition put_str :: "string \<Rightarrow> string" where
  "put_str s = replicate (length s) CHR ''1'' @ CHR '':'' # s"

definition get_str :: "string \<Rightarrow> (string \<times> string) option" where
  "get_str s =
     (let n = length (takeWhile (\<lambda>c. c = CHR ''1'') s); rest = drop (Suc n) s in
      if n < length s \<and> s ! n = CHR '':'' \<and> n \<le> length rest then Some (take n rest, drop n rest) else None)"

fun get_strs :: "nat \<Rightarrow> string \<Rightarrow> string list option" where
  "get_strs 0 s = (if s = [] then Some [] else None)"
| "get_strs (Suc n) s =
     (case get_str s of None \<Rightarrow> None | Some (x, rest) \<Rightarrow> map_option (Cons x) (get_strs n rest))"

definition put_int :: "int \<Rightarrow> string" where
  "put_int i = (if i < 0 then CHR ''-'' # replicate (nat (- i)) CHR ''1'' else replicate (nat i) CHR ''1'')"

definition get_int :: "string \<Rightarrow> int" where
  "get_int s = (if s \<noteq> [] \<and> hd s = CHR ''-'' then - int (length (tl s)) else int (length s))"

definition get_rat :: "string \<Rightarrow> string \<Rightarrow> rat" where
  "get_rat n d = of_int (get_int n) / of_int (get_int d)"

definition job_fields :: "Job \<Rightarrow> string list" where
  "job_fields j =
     [JID j, Class j, Queue j, put_int (Retry j), put_int (RetryCount j),
      put_int (fst (quotient_of (CreatedAt j))), put_int (snd (quotient_of (CreatedAt j))),
      put_int (fst (quotient_of (EnqueuedAt j))), put_int (snd (quotient_of (EnqueuedAt j))),
      (if Backtrace j then ''t'' else []), State j, (if Args j = None then ''n'' else [])]"

definition sim_marshal :: encoder where
  "sim_marshal j =
     (if Args j = None \<or> Args j = Some [] then Inr (concat (map put_str (job_fields j))) else Inl (UserError 3))"

definition sim_unmarshal :: decoder where
  "sim_unmarshal d =
     (case get_strs 12 d of
        Some [jid, cls, q, rt, rc, cn, cd, en, ed, bt, st, ar] \<Rightarrow>
          Inr \<lparr>JID = jid, Class = cls, Args = (if ar = [] then Some [] else None), Queue = q,
               Retry = get_int rt, RetryCount = get_int rc, CreatedAt = get_rat cn cd,
               EnqueuedAt = get_rat en ed, Backtrace = (bt \<noteq> []), State = st, RawPayload = []\<rparr>
      | _ \<Rightarrow> Inl (UserError 4))"

lemma get_put_str [simp]: "get_str (put_str s @ t) = Some (s, t)"
proof -
  have "takeWhile (\<lambda>c. c = CHR ''1'') (put_str s @ t) = replicate (length s) CHR ''1''"
    by (simp add: put_str_def takeWhile_append)
  then show ?thesis by (simp add: get_str_def put_str_def nth_append Let_def)
qed

lemma get_put_strs: "get_strs (length xs) (concat (map put_str xs)) = Some xs"
  by (induction xs) simp_all

lemma get_put_int [simp]: "get_int (put_int i) = i"
  by (auto simp: get_int_def put_int_def)

lemma get_rat_quotient [simp]:
  "get_rat (put_int (fst (quotient_of r))) (put_int (snd (quotient_of r))) = r"
  using quotient_of_div [of r] by (simp add: get_rat_def prod_eq_iff)

lemma sim_round_trip: "sim_marshal j = Inr d \<Longrightarrow> sim_unmarshal d = Inr (j\<lparr>RawPayload := []\<rparr>)"
proof -
  assume m: "sim_marshal j = Inr d"
  then have "get_strs (length (job_fields j)) d = Some (job_fields j)"
    unfolding sim_marshal_def using get_put_strs by (auto split: if_splits)
  moreover have "length (job_fields j) = 12" by (simp add: job_fields_def)
  ultimately have "get_strs 12 d = Some (job_fields j)" by metis
  with m show ?thesis
    by (cases j) (auto simp: sim_unmarshal_def sim_marshal_def job_fields_def split: if_splits)
qed

lemma sim_job_codec: "job_codec sim_marshal sim_unmarshal (\<lambda>_. True)"
proof
  show "sim_marshal (j\<lparr>RawPayload := p\<rparr>) = sim_marshal j" for j p
    by (simp add: sim_marshal_def job_fields_def)
  show "d \<noteq> [] \<and> (\<exists>j'. sim_unmarshal d = Inr j' \<and> JID j' = JID j)" if "sim_marshal j = Inr d" for j d
    using sim_round_trip [OF that] that by (auto simp: sim_marshal_def job_fields_def put_str_def split: if_splits)
  show "RawPayload j = [] \<and> True" if "sim_unmarshal d = Inr j" for d j
    using that by (auto simp: sim_unmarshal_def split: option.splits list.splits)
qed

interpretation sim_codec: decoded_codec sim_marshal sim_unmarshal "\<lambda>_. True"
proof (rule decoded_codec.intro [OF sim_job_codec], unfold_locales)
  fix p j m c st x d assume "sim_marshal (j\<lparr>Retry := m, RetryCount := c, State := st, RawPayload := x\<rparr>) = Inr d"
  from sim_round_trip [OF this]
  show "sim_unmarshal d = Inr (j\<lparr>Retry := m, RetryCount := c, State := st, RawPayload := []\<rparr>)" by simp
qed

lemmas sim_decoded_codec = sim_codec.decoded_codec_axioms

lemma sim_redis_broker: "redis_broker simR sim_data sim_marshal sim_unmarshal (\<lambda>_. True)"
  by (rule redis_broker.intro [OF sim_redis_server sim_job_codec])

interpretation sim: redis_broker simR sim_data sim_marshal sim_unmarshal "\<lambda>_. True"
  by (rule sim_redis_broker)

end
