(* ===== verification/Redis_Setup.thy ===== *)
theory Redis_Setup
  imports Redis_Sim
begin

text \<open>
  The constructors of \<^verbatim>\<open>internal/broker/redis_broker.go\<close>: the checks on the URL, the TLS settings,
  the first ping, and the masking of credentials in error messages. \<open>url.Parse\<close>,
  \<open>URL.String\<close>, \<open>redis.ParseURL\<close> and \<open>redis.NewClient\<close> are not part of the
  repository and are arguments.
\<close>

record URL =
  url_User :: "(string \<times> string option) option"
  url_Other :: string

definition redactURL :: "(string \<Rightarrow> error + URL) \<Rightarrow> (URL \<Rightarrow> string) \<Rightarrow> string \<Rightarrow> string" where
  "redactURL url_Parse url_String rawURL =
     (case url_Parse rawURL of
        Inl _ \<Rightarrow> ''[unparseable URL]''
      | Inr u \<Rightarrow>
          (case url_User u of
             None \<Rightarrow> url_String u
           | Some (username, _) \<Rightarrow> url_String (u\<lparr>url_User := Some (username, Some ''[REDACTED]'')\<rparr>)))"

record TLSConfig =
  MinVersion :: nat
  InsecureSkipVerify :: bool

definition VersionTLS12 :: nat where "VersionTLS12 = 771"

text \<open>The fields of \<open>redis.Options\<close> the constructor sets; \<open>ro_Addr\<close> stands for the others.\<close>

record RedisOptions =
  ro_Addr :: string
  DialTimeout :: dur
  ReadTimeout :: dur
  WriteTimeout :: dur
  ro_TLSConfig :: "TLSConfig option"

text \<open>\<open>rcfg_Logger\<close> says whether a logger is given.\<close>

record RedisBrokerConfig =
  rcfg_URL :: string
  rcfg_Timeout :: dur
  rcfg_UseTLS :: bool
  rcfg_TLSInsecureSkipVerify :: bool
  rcfg_Logger :: bool

definition redis_url :: "RedisBrokerConfig \<Rightarrow> error + string" where
  "redis_url cfg =
     (let trimmedURL = TrimSpace (rcfg_URL cfg) in
      if trimmedURL = [] then Inl RedisURLEmpty
      else if rcfg_UseTLS cfg \<and> \<not> HasPrefix trimmedURL ''rediss://'' then
        (if HasPrefix trimmedURL ''redis://'' then Inr (''rediss://'' @ drop 8 trimmedURL)
         else Inl UseTLSWrongScheme)
      else Inr trimmedURL)"

definition wants_tls :: "RedisBrokerConfig \<Rightarrow> string \<Rightarrow> bool" where
  "wants_tls cfg url \<longleftrightarrow> rcfg_UseTLS cfg \<or> HasPrefix url ''rediss://''"

definition redis_options :: "RedisBrokerConfig \<Rightarrow> string \<Rightarrow> RedisOptions \<Rightarrow> RedisOptions" where
  "redis_options cfg url opt0 =
     (let opt = opt0\<lparr>DialTimeout := rcfg_Timeout cfg, ReadTimeout := rcfg_Timeout cfg,
                     WriteTimeout := rcfg_Timeout cfg\<rparr>
      in if wants_tls cfg url
         then opt\<lparr>ro_TLSConfig := Some \<lparr>MinVersion = VersionTLS12,
                InsecureSkipVerify = rcfg_TLSInsecureSkipVerify cfg\<rparr>\<rparr>
         else opt)"

text \<open>On a failed ping the context is cancelled and the client closed; both are then unreachable.\<close>

definition NewRedisBrokerWithConfig ::
  "'s Redis \<Rightarrow> (string \<Rightarrow> error + URL) \<Rightarrow> (URL \<Rightarrow> string) \<Rightarrow> (string \<Rightarrow> error + RedisOptions) \<Rightarrow>
     (RedisOptions \<Rightarrow> 's) \<Rightarrow> RedisBrokerConfig \<Rightarrow> 'b world \<Rightarrow> (error + 's RedisBroker) \<times> 'b world" where
  "NewRedisBrokerWithConfig R url_Parse url_String parseURL newClient cfg w =
     (case redis_url cfg of
        Inl err \<Rightarrow> (Inl err, w)
      | Inr url \<Rightarrow>
          (case parseURL url of
             Inl err \<Rightarrow> (Inl (InvalidRedisURL (redactURL url_Parse url_String url) err), w)
           | Inr opt \<Rightarrow>
               (let w1 = (if wants_tls cfg url \<and> rcfg_TLSInsecureSkipVerify cfg \<and> rcfg_Logger cfg
                          then log_line Warn
                            ''[SECURITY] TLS certificate verification disabled; this is insecure in production'' [] w
                          else w);
                    client = newClient (redis_options cfg url opt)
                in case rc_Ping R None client of
                     (Some err, _) \<Rightarrow> (Inl (Wrapf ''broker not available: Redis unreachable'' err), w1)
                   | (None, s) \<Rightarrow>
                       (Inr \<lparr>rb_client = s, rb_ctx_done = False, rb_log = rcfg_Logger cfg\<rparr>, w1))))"

definition NewRedisBroker ::
  "'s Redis \<Rightarrow> (string \<Rightarrow> error + URL) \<Rightarrow> (URL \<Rightarrow> string) \<Rightarrow> (string \<Rightarrow> error + RedisOptions) \<Rightarrow>
     (RedisOptions \<Rightarrow> 's) \<Rightarrow> string \<Rightarrow> dur \<Rightarrow> 'b world \<Rightarrow> (error + 's RedisBroker) \<times> 'b world" where
  "NewRedisBroker R url_Parse url_String parseURL newClient redisURL timeout w =
     NewRedisBrokerWithConfig R url_Parse url_String parseURL newClient
       \<lparr>rcfg_URL = redisURL, rcfg_Timeout = timeout, rcfg_UseTLS = False,
        rcfg_TLSInsecureSkipVerify = False, rcfg_Logger = False\<rparr> w"

section \<open>A concrete configuration\<close>

definition sim_parse :: "string \<Rightarrow> error + RedisOptions" where
  "sim_parse url = Inr \<lparr>ro_Addr = url, DialTimeout = 0, ReadTimeout = 0, WriteTimeout = 0, ro_TLSConfig = None\<rparr>"

definition sim_connect :: "RedisOptions \<Rightarrow> sim" where
  "sim_connect _ = \<lparr>sim_data = \<lparr>rd_list = (\<lambda>_. []), rd_zset = (\<lambda>_. [])\<rparr>, sim_faults = (\<lambda>_. Fine), sim_closed = False\<rparr>"

definition demo_redis_cfg :: RedisBrokerConfig where
  "demo_redis_cfg = \<lparr>rcfg_URL = '' redis://h'', rcfg_Timeout = Second, rcfg_UseTLS = True,
     rcfg_TLSInsecureSkipVerify = True, rcfg_Logger = True\<rparr>"

lemma demo_redis_new:
  "\<exists>b w'. NewRedisBrokerWithConfig simR (\<lambda>_. Inl BrokerClosed) url_Other sim_parse sim_connect demo_redis_cfg
     (start_world () []) = (Inr b, w')"
  by (simp add: NewRedisBrokerWithConfig_def redis_url_def demo_redis_cfg_def sim_parse_def sim_connect_def
      HasPrefix_def TrimSpace_def is_space_def Let_def simR_def sim_write_def sim_cmd_def err_only_def sim_upd_def)

section \<open>Properties\<close>

text \<open>The rendered URL does not depend on the password.\<close>

lemma redactURL_masks:
  assumes "url_Parse url = Inr u" "url_Parse url' = Inr (u\<lparr>url_User := Some (name, pw')\<rparr>)"
    and "url_User u = Some (name, pw)"
  shows "redactURL url_Parse url_String url' = redactURL url_Parse url_String url"
  using assms by (simp add: redactURL_def)

lemma redis_url_tls:
  assumes "redis_url cfg = Inr url" "rcfg_UseTLS cfg"
  shows "HasPrefix url ''rediss://''"
  using assms by (auto simp: redis_url_def HasPrefix_def Let_def split: if_splits)

text \<open>
  A broker that was asked for TLS never talks plain text: the URL handed to the client
  has the TLS scheme, and the client is configured for TLS 1.2 or later, verifying certificates unless
  the configuration says otherwise; the same holds for a URL with that scheme without the option.
\<close>

lemma redis_tls_enforced:
  assumes "NewRedisBrokerWithConfig R url_Parse url_String parseURL newClient cfg w = (Inr b, w')"
    and "rcfg_UseTLS cfg \<or> HasPrefix (TrimSpace (rcfg_URL cfg)) ''rediss://''"
  shows "\<exists>url opt o1. parseURL url = Inr opt \<and> HasPrefix url ''rediss://'' \<and> o1 = redis_options cfg url opt \<and>
    ro_TLSConfig o1 = Some \<lparr>MinVersion = 771, InsecureSkipVerify = rcfg_TLSInsecureSkipVerify cfg\<rparr> \<and>
    rc_Ping R None (newClient o1) = (None, rb_client b)"
proof -
  obtain url opt where u: "redis_url cfg = Inr url" "parseURL url = Inr opt"
    "rc_Ping R None (newClient (redis_options cfg url opt)) = (None, rb_client b)"
    using assms(1)
    by (auto simp: NewRedisBrokerWithConfig_def Let_def split: sum.splits prod.splits option.splits)
  have "HasPrefix url ''rediss://''"
    using u(1) assms(2) redis_url_tls [OF u(1)] by (auto simp: redis_url_def Let_def split: if_splits)
  with u show ?thesis by (auto simp: redis_options_def wants_tls_def VersionTLS12_def Let_def)
qed

text \<open>
  C38: how the constructor fails. A blank URL, and a scheme other than \<open>redis://\<close> and \<open>rediss://\<close> when TLS
  is asked for, are refused with nothing done; a URL that does not parse gives the message with the URL
  rendered by \<open>redactURL\<close> and the parser's error as it is; a failed ping gives the error of the ping;
  otherwise there is a broker. The rendered URL is the same for any other password; what the parser's error
  says of the URL is up to the parser.
\<close>

theorem redis_setup_errors:
  assumes new: "NewRedisBrokerWithConfig R url_Parse url_String parseURL newClient cfg w = (x, w')"
  shows "(TrimSpace (rcfg_URL cfg) = [] \<longrightarrow> x = Inl RedisURLEmpty \<and> w' = w) \<and>
    (TrimSpace (rcfg_URL cfg) \<noteq> [] \<and> rcfg_UseTLS cfg \<and> \<not> HasPrefix (TrimSpace (rcfg_URL cfg)) ''rediss://'' \<and>
       \<not> HasPrefix (TrimSpace (rcfg_URL cfg)) ''redis://'' \<longrightarrow> x = Inl UseTLSWrongScheme \<and> w' = w) \<and>
    (\<forall>url err. redis_url cfg = Inr url \<and> parseURL url = Inl err \<longrightarrow>
       x = Inl (InvalidRedisURL (redactURL url_Parse url_String url) err) \<and> w' = w) \<and>
    (\<forall>url opt err s. redis_url cfg = Inr url \<and> parseURL url = Inr opt \<and>
       rc_Ping R None (newClient (redis_options cfg url opt)) = (Some err, s) \<longrightarrow>
       x = Inl (Wrapf ''broker not available: Redis unreachable'' err)) \<and>
    ((\<exists>b. x = Inr b) \<longleftrightarrow> (\<exists>url opt s. redis_url cfg = Inr url \<and> parseURL url = Inr opt \<and>
       rc_Ping R None (newClient (redis_options cfg url opt)) = (None, s))) \<and>
    (\<forall>url url' u name pw pw'. url_Parse url = Inr u \<and> url_User u = Some (name, pw) \<and>
       url_Parse url' = Inr (u\<lparr>url_User := Some (name, pw')\<rparr>) \<longrightarrow>
       redactURL url_Parse url_String url' = redactURL url_Parse url_String url)"
proof -
  have "TrimSpace (rcfg_URL cfg) = [] \<longrightarrow> redis_url cfg = Inl RedisURLEmpty"
    "TrimSpace (rcfg_URL cfg) \<noteq> [] \<and> rcfg_UseTLS cfg \<and> \<not> HasPrefix (TrimSpace (rcfg_URL cfg)) ''rediss://'' \<and>
       \<not> HasPrefix (TrimSpace (rcfg_URL cfg)) ''redis://'' \<longrightarrow> redis_url cfg = Inl UseTLSWrongScheme"
    by (simp_all add: redis_url_def Let_def)
  moreover have "x = Inl err \<and> w' = w" if "redis_url cfg = Inl err" for err
    using new that by (simp add: NewRedisBrokerWithConfig_def)
  moreover have "x = Inl (InvalidRedisURL (redactURL url_Parse url_String url) err) \<and> w' = w"
    if "redis_url cfg = Inr url" "parseURL url = Inl err" for url err
    using new that by (simp add: NewRedisBrokerWithConfig_def)
  moreover have "x = (case rc_Ping R None (newClient (redis_options cfg url opt)) of
        (Some err, _) \<Rightarrow> Inl (Wrapf ''broker not available: Redis unreachable'' err)
      | (None, s) \<Rightarrow> Inr \<lparr>rb_client = s, rb_ctx_done = False, rb_log = rcfg_Logger cfg\<rparr>)"
    if "redis_url cfg = Inr url" "parseURL url = Inr opt" for url opt
    using new that by (auto simp: NewRedisBrokerWithConfig_def Let_def split: prod.splits option.splits)
  moreover have "(\<exists>b. x = Inr b) \<longleftrightarrow> (\<exists>url opt s. redis_url cfg = Inr url \<and> parseURL url = Inr opt \<and>
       rc_Ping R None (newClient (redis_options cfg url opt)) = (None, s))"
    using new by (auto simp: NewRedisBrokerWithConfig_def Let_def split: sum.splits prod.splits option.splits)
  ultimately show ?thesis using redactURL_masks [of url_Parse _ _ _ _ _ _ url_String] by (intro conjI allI impI) auto
qed

theorem redis_setup_errors_witness:
  "\<exists>w'. NewRedisBrokerWithConfig simR (\<lambda>_. Inl BrokerClosed) url_Other sim_parse sim_connect
       (demo_redis_cfg\<lparr>rcfg_URL := ''tcp://h''\<rparr>) (start_world () []) = (Inl UseTLSWrongScheme, w') \<and> w' = start_world () []"
proof -
  let ?c = "demo_redis_cfg\<lparr>rcfg_URL := ''tcp://h''\<rparr>"
  have t: "TrimSpace (rcfg_URL ?c) = ''tcp://h''" "rcfg_UseTLS ?c"
    by (simp_all add: demo_redis_cfg_def TrimSpace_def is_space_def)
  obtain x w' where n: "NewRedisBrokerWithConfig simR (\<lambda>_. Inl BrokerClosed) url_Other sim_parse sim_connect
      ?c (start_world () []) = (x, w')" by fastforce
  from redis_setup_errors [OF n] t n show ?thesis by (simp add: HasPrefix_def)
qed

end
