(* ===== verification/Redis_Props.thy ===== *)
theory Redis_Props
  imports Redis_Sim Accounting
begin

text \<open>
  Properties of the Redis broker, for every server and codec with the documented behaviour (the
  hypothesis \<open>redis_broker R data marshal unmarshal utf8\<close>): what the processor does on it, what a
  dequeue takes and leases, that an acknowledgement removes exactly the leased payload, that a due
  retry is removed exactly, and what the reaper collects.
\<close>

section \<open>Lemmas\<close>

lemma zrem_zadd: "zrem k m (zadd k sc m D) = zrem k m D"
  by (simp add: zrem_def zadd_def filter_insort_triv)

text \<open>The first queue of \<open>qs\<close> with a payload, and that payload.\<close>

definition first_queue :: "redis_data \<Rightarrow> string list \<Rightarrow> string option" where
  "first_queue D qs = List.find (\<lambda>q. rd_list D (queueKey q) \<noteq> []) qs"

definition leased_data :: "redis_data \<Rightarrow> string \<Rightarrow> time \<Rightarrow> redis_data" where
  "leased_data D q now =
     zadd redisProcessingKey (of_int (Unix (now + DefaultLeaseDuration))) (last (rd_list D (queueKey q)))
       (rpop (queueKey q) D)"

text \<open>
  The effect of a dequeue that returns \<open>y\<close>: the oldest payload of the queue is under a lease of five
  minutes from the last reading \<open>clock w n\<close> of the clock that the call took, and the new job is what the
  payload decodes to, with its bytes.
\<close>

definition redis_took ::
  "('s \<Rightarrow> redis_data) \<Rightarrow> decoder \<Rightarrow> 's redis_world \<Rightarrow> (jobref \<times> string) option \<Rightarrow> 's redis_world \<Rightarrow> bool" where
  "redis_took data unmarshal w y w' \<longleftrightarrow>
     (let D = data (rb_client (brk w)); D' = data (rb_client (brk w')) in
      case y of
        None \<Rightarrow> heap w' = heap w \<and> next_ref w' = next_ref w \<and> D' = D
      | Some (r, q) \<Rightarrow> rd_list D (queueKey q) \<noteq> [] \<and> r = next_ref w \<and> next_ref w' = Suc (next_ref w) \<and>
          (\<exists>n j. clock w' = (\<lambda>i. clock w (i + Suc n)) \<and> D' = leased_data D q (clock w n) \<and> unmarshal (last (rd_list D (queueKey q))) = Inr j \<and>
             heap w' = (heap w)(r := (clamp_decoded j)\<lparr>RawPayload := last (rd_list D (queueKey q))\<rparr>)))"

lemma redis_took_later:
  assumes "heap a = heap w" "next_ref a = next_ref w" "data (rb_client (brk a)) = data (rb_client (brk w))"
    and "clock a = (\<lambda>i. clock w (i + k))" "redis_took data u a y w'"
  shows "redis_took data u w y w'"
proof (cases y)
  case (Some z)
  obtain r q where z: "z = (r, q)" by (cases z)
  from assms(5) obtain n j where "clock w' = (\<lambda>i. clock a (i + Suc n))"
    "data (rb_client (brk w')) = leased_data (data (rb_client (brk a))) q (clock a n)"
    by (auto simp: redis_took_def Let_def Some z)
  then have "clock w' = (\<lambda>i. clock w (i + Suc (n + k)))"
    "data (rb_client (brk w')) = leased_data (data (rb_client (brk a))) q (clock w (n + k))"
    using assms(4) by (simp_all add: add.assoc)
  with assms(1-3,5) show ?thesis unfolding Some z redis_took_def Let_def by auto
qed (use assms in \<open>simp add: redis_took_def Let_def\<close>)

lemma with_client_clock [simp]: "clock (snd (with_client f w)) = clock w"
  by (simp add: with_client_def split: prod.splits)

text \<open>A pass over the queues and the look at the clock after it take readings off the clock.\<close>

lemma redis_scan_clock: "\<exists>n. clock (snd (redis_scan R u qs w)) = (\<lambda>i. clock w (i + n))"
proof (induction qs arbitrary: w)
  case Nil
  show ?case by (intro exI [of _ 0]) simp
next
  case (Cons q qs)
  let ?w1 = "snd (time_Now w)"
  obtain x w2 where run: "with_client (rc_Run R (rb_ctx ?w1) (dequeueAndLeaseScript R (queueKey q) redisProcessingKey
      (of_int (Unix (clock w 0 + DefaultLeaseDuration))))) ?w1 = (x, w2)" by fastforce
  have "clock w2 = clock ?w1"
    using with_client_clock [of _ ?w1] run by (metis snd_conv)
  then have w2: "clock w2 = (\<lambda>i. clock w (i + 1))" by (simp add: time_Now_def)
  obtain n where n: "clock (snd (redis_scan R u qs w2)) = (\<lambda>i. clock w2 (i + n))" using Cons.IH by blast
  have "clock (snd (redis_scan R u (q # qs) w)) = clock (snd (redis_scan R u qs w2)) \<or>
      clock (snd (redis_scan R u (q # qs) w)) = clock w2"
    using run by (auto simp: Let_def case_prod_beta alloc_job_def split: sum.splits option.splits)
  then show ?case
  proof
    assume "clock (snd (redis_scan R u (q # qs) w)) = clock (snd (redis_scan R u qs w2))"
    then show ?thesis by (intro exI [of _ "n + 1"]) (simp add: n w2 add.assoc)
  next
    assume "clock (snd (redis_scan R u (q # qs) w)) = clock w2"
    then show ?thesis by (intro exI [of _ 1]) (simp add: w2)
  qed
qed

context redis_broker
begin

lemma is_contract:
  "broker_contract (redisB R marshal unmarshal) (redis_where data unmarshal) (redis_invar data unmarshal utf8)
     (redis_admissible utf8)"
  by unfold_locales

lemma lease_run_exact:
  assumes "with_client (rc_Run R c (dequeueAndLeaseScript R (queueKey q) redisProcessingKey sc)) w = (Inr x, w')"
    and D: "D = data (rb_client (brk w))"
  shows "heap w' = heap w \<and> next_ref w' = next_ref w \<and>
    (if rd_list D (queueKey q) = [] then x = None \<and> data (rb_client (brk w')) = D
     else x = Some [queueKey q, last (rd_list D (queueKey q))] \<and>
       data (rb_client (brk w')) = zadd redisProcessingKey sc (last (rd_list D (queueKey q))) (rpop (queueKey q) D))"
proof -
  let ?f = "dequeueAndLeaseScript R (queueKey q) redisProcessingKey sc"
  obtain s where s: "rc_Run R c ?f (rb_client (brk w)) = (Inr x, s)" and w': "w' = w\<lparr>brk := (brk w)\<lparr>rb_client := s\<rparr>\<rparr>"
    using assms(1) by (auto elim: with_client_cases)
  from run_law [OF s] obtain s0 where s0: "data s0 = D" "x = fst (?f s0)" "data s = data (snd (?f s0))"
    unfolding D by auto
  with lease_script [OF s0(1), of "queueKey q" redisProcessingKey sc] show ?thesis by (simp add: w')
qed

text \<open>A pass over the queues that ends without an error.\<close>

lemma redis_scan_exact:
  assumes "redis_scan R unmarshal qs w = (x, w')" "\<forall>e. x \<noteq> Some (Inl e)" "D = data (rb_client (brk w))"
  shows "\<exists>y. x = map_option Inr y \<and> map_option snd y = first_queue D qs \<and> redis_took data unmarshal w y w'"
  using assms
proof (induction qs arbitrary: w)
  case Nil
  then show ?case by (simp add: first_queue_def redis_took_def)
next
  case (Cons q qs)
  let ?w1 = "snd (time_Now w)" and ?sc = "of_int (Unix (clock w 0 + DefaultLeaseDuration)) :: rat"
  let ?d = "last (rd_list D (queueKey q))"
  obtain y w2 where run: "with_client (rc_Run R (rb_ctx ?w1)
      (dequeueAndLeaseScript R (queueKey q) redisProcessingKey ?sc)) ?w1 = (y, w2)"
    by (cases "with_client (rc_Run R (rb_ctx ?w1) (dequeueAndLeaseScript R (queueKey q) redisProcessingKey ?sc)) ?w1")
  obtain res where y: "y = Inr res" using Cons.prems(1,2) run by (cases y) (auto simp: case_prod_beta Let_def)
  have D1: "D = data (rb_client (brk ?w1))" using Cons.prems(3) by simp
  note law = lease_run_exact [OF run [unfolded y] D1]
  have "clock w2 = clock ?w1" using with_client_clock [of _ ?w1] run by (metis snd_conv)
  then have clk: "clock w2 = (\<lambda>i. clock w (i + 1))" by (simp add: time_Now_def)
  show ?case
  proof (cases "rd_list D (queueKey q) = []")
    case True
    then have w2: "redis_scan R unmarshal qs w2 = (x, w')" "D = data (rb_client (brk w2))" "heap w2 = heap w"
      "next_ref w2 = next_ref w"
      using Cons.prems(1) run y law by (auto simp: case_prod_beta Let_def)
    from Cons.IH [OF w2(1) Cons.prems(2) w2(2)] True redis_took_later [OF w2(3,4) _ clk, of data] w2(2) Cons.prems(3)
    show ?thesis by (auto simp: first_queue_def)
  next
    case False
    with law have l: "res = Some [queueKey q, ?d]" "data (rb_client (brk w2)) = leased_data D q (clock w 0)"
      "heap w2 = heap w" "next_ref w2 = next_ref w"
      by (simp_all add: leased_data_def)
    obtain j where j: "unmarshal ?d = Inr j"
      using Cons.prems(1,2) run y l(1)
      by (cases "unmarshal ?d") (auto simp: case_prod_beta Let_def FromJSON_def)
    have x: "x = Some (Inr (next_ref w, q))" "w' = snd (alloc_job ((clamp_decoded j)\<lparr>RawPayload := ?d\<rparr>) w2)"
      using Cons.prems(1) run y l(1,4) j
      by (auto simp: case_prod_beta Let_def FromJSON_def alloc_job_def queueKey_def)
    have "redis_took data unmarshal w (Some (next_ref w, q)) w'"
      using l j False x(2) Cons.prems(3) clk
      by (auto simp: redis_took_def alloc_job_def Let_def intro!: exI [of _ "0 :: nat"])
    with x(1) False show ?thesis by (intro exI [of _ "Some (next_ref w, q)"]) (simp add: first_queue_def)
  qed
qed

lemma redis_Dequeue_exact:
  assumes "redis_Dequeue R unmarshal qs timeout w = Some (Inr y, w')" "D = data (rb_client (brk w))"
  shows "map_option snd y = first_queue D qs \<and> redis_took data unmarshal w y w'"
proof -
  let ?I = "\<lambda>a. heap a = heap w \<and> next_ref a = next_ref w \<and> data (rb_client (brk a)) = D \<and>
    (\<exists>k. clock a = (\<lambda>i. clock w (i + k)))"
  let ?Q = "\<lambda>(x :: error + (jobref \<times> string) option) b. \<forall>y. x = Inr y \<longrightarrow> map_option snd y = first_queue D qs \<and> redis_took data unmarshal w y b"
  have poll: "redis_poll R unmarshal qs (clock w 0 + timeout) (snd (time_Now w)) = Some (Inr y, w')"
    using assms(1) by (simp add: redis_Dequeue_def case_prod_beta)
  have scan: "\<exists>y. map_option Inr y = x \<and> map_option snd y = first_queue D qs \<and> redis_took data unmarshal w y b"
    if "?I a" "redis_scan R unmarshal qs a = (x, b)" "\<forall>e. x \<noteq> Some (Inl e)" for a x b
    using redis_scan_exact [OF that(2,3), of D] that(1) redis_took_later [of a w data] assms(2) by metis
  have "?Q (Inr y) w'"
  proof (rule redis_poll_rule [OF poll, where I = ?I and Q = ?Q, unfolded fst_conv snd_conv])
    show "?I (snd (time_Now w))" using assms(2) by (intro conjI exI [of _ 1]) (simp_all add: time_Now_def)
    show "?Q (map_sum id Some z) b" if "?I a" "redis_scan R unmarshal qs a = (Some z, b)" for a z b
      using scan [OF that] by (cases z) auto
    show "?I (snd (time_Now b)) \<and> ?Q (Inr None) (snd (time_Now b))"
      if "?I a" "redis_scan R unmarshal qs a = (None, b)" for a b
    proof -
      from that obtain k where k: "clock a = (\<lambda>i. clock w (i + k))" by blast
      from redis_scan_clock [of R unmarshal qs a] that(2) obtain n where "clock b = (\<lambda>i. clock a (i + n))" by auto
      with k have "clock (snd (time_Now b)) = (\<lambda>i. clock w (i + (1 + n + k)))" by (auto simp: time_Now_def add.assoc)
      then have "\<exists>k. clock (snd (time_Now b)) = (\<lambda>i. clock w (i + k))" by blast
      then show ?thesis using scan [OF that] assms(2) by (auto simp: redis_took_def Let_def)
    qed
  qed
  then show ?thesis by simp
qed

lemma redis_get_retry_exact:
  assumes "redis_GetRetryJobs R unmarshal n w = (Inr rs, w1)" "D = data (rb_client (brk w))"
    and "ds = zrange 0 (of_int (Unix (clock w 0))) (nat (retry_limit n)) (rd_zset D ''retry'')"
    and "\<forall>d \<in> members D ''retry''. \<exists>j. unmarshal d = Inr j"
  shows "data (rb_client (brk w1)) = D \<and> rs = [next_ref w ..< next_ref w + length ds] \<and>
    (\<forall>i < length ds. \<exists>j. unmarshal (ds ! i) = Inr j \<and> heap w1 (next_ref w + i) = clamp_decoded j)"
proof -
  let ?w1 = "snd (time_Now w)"
  obtain y w2 where y: "with_client (rc_ZRangeByScore R (rb_ctx ?w1) ''retry'' 0 (of_int (Unix (clock w 0)))
      (retry_limit n)) ?w1 = (y, w2)"
    by (cases "with_client (rc_ZRangeByScore R (rb_ctx ?w1) ''retry'' 0 (of_int (Unix (clock w 0)))
      (retry_limit n)) ?w1")
  then obtain s where s: "rc_ZRangeByScore R (rb_ctx ?w1) ''retry'' 0 (of_int (Unix (clock w 0)))
      (retry_limit n) (rb_client (brk ?w1)) = (y, s)" and w2: "w2 = ?w1\<lparr>brk := (brk ?w1)\<lparr>rb_client := s\<rparr>\<rparr>"
    by (auto elim: with_client_cases)
  have "0 < retry_limit n" by (simp add: retry_limit_def Let_def)
  note law = zrange_law [OF this s]
  obtain ds' where ds': "y = Inr ds'" "retry_decode unmarshal ds' w2 = (rs, w1)"
    using assms(1) y by (cases y) (auto simp: redis_GetRetryJobs_def case_prod_beta)
  then have eq: "ds' = ds" using law assms(2,3) by simp
  have "\<forall>d \<in> set ds. \<exists>j. unmarshal d = Inr j"
    using assms(3,4) set_zrange [of 0 "of_int (Unix (clock w 0))" "nat (retry_limit n)" "rd_zset D ''retry''"]
    by (auto simp: members_def)
  from retry_decode_effect [OF ds'(2) [unfolded eq] this] law assms(2) show ?thesis by (simp add: w2)
qed

lemma redis_remove_retry_exact:
  assumes "redis_RemoveFromRetry R marshal r w = (None, w')" "marshal (heap w r) = Inr d"
  shows "data (rb_client (brk w')) = zrem ''retry'' d (data (rb_client (brk w)))"
proof -
  have "with_client (rc_ZRem R (rb_ctx w) ''retry'' d) w = (None, w')"
    using assms by (simp add: redis_RemoveFromRetry_def ToJSON_def)
  then obtain s where s: "rc_ZRem R (rb_ctx w) ''retry'' d (rb_client (brk w)) = (None, s)"
    and w': "w' = w\<lparr>brk := (brk w)\<lparr>rb_client := s\<rparr>\<rparr>" by (auto elim: with_client_cases)
  from zrem_law [OF s] show ?thesis by (simp add: w')
qed

lemma redis_add_retry_exact:
  assumes "redis_AddToRetry R marshal r t w = (None, w')"
  obtains d where "marshal (heap w r) = Inr d"
    "data (rb_client (brk w')) = zadd ''retry'' (of_int (Unix t)) d (data (rb_client (brk w)))"
proof -
  obtain d where d: "marshal (heap w r) = Inr d"
    "with_client (rc_ZAdd R (rb_ctx w) ''retry'' (of_int (Unix t)) d) w = (None, w')"
    using assms by (cases "marshal (heap w r)") (auto simp: redis_AddToRetry_def ToJSON_def)
  then obtain s where s: "rc_ZAdd R (rb_ctx w) ''retry'' (of_int (Unix t)) d (rb_client (brk w)) = (None, s)"
    and w': "w' = w\<lparr>brk := (brk w)\<lparr>rb_client := s\<rparr>\<rparr>" by (auto elim: with_client_cases)
  from zadd_law [OF s] d(1) that show thesis by (simp add: w')
qed

lemma redis_ack_exact:
  assumes "redis_Ack R marshal r w = (None, w')" "RawPayload (heap w r) = d" "d \<noteq> []"
  shows "data (rb_client (brk w')) = zrem redisProcessingKey d (data (rb_client (brk w)))"
proof -
  have "with_client (rc_ZRem R (rb_ctx w) redisProcessingKey d) w = (None, w')"
    using assms by (simp add: redis_Ack_def rawOrSerialize_def)
  then obtain s where s: "rc_ZRem R (rb_ctx w) redisProcessingKey d (rb_client (brk w)) = (None, s)"
    and w': "w' = w\<lparr>brk := (brk w)\<lparr>rb_client := s\<rparr>\<rparr>" by (auto elim: with_client_cases)
  from zrem_law [OF s] show ?thesis by (simp add: w')
qed

lemma redis_reap_exact:
  assumes "redis_ReapOrphanedJobs R unmarshal d w = (Inr rs, w')" "D = data (rb_client (brk w))"
    and "ds = zrange 0 (of_int (Unix (clock w 0))) 100 (rd_zset D redisProcessingKey)"
  shows "data (rb_client (brk w')) = fold (zrem redisProcessingKey) ds D \<and>
    (\<exists>w2. brk w2 = brk w' \<and> heap w2 = heap w \<and> next_ref w2 = next_ref w \<and> reap_decode unmarshal ds w2 = (rs, w'))"
proof -
  let ?w1 = "snd (time_Now w)" and ?f = "reapScript R redisProcessingKey (of_int (Unix (clock w 0))) 100"
  obtain y w2 where run: "with_client (rc_Run R (rb_ctx ?w1) ?f) ?w1 = (y, w2)"
    by (cases "with_client (rc_Run R (rb_ctx ?w1) ?f) ?w1")
  then obtain s where s: "rc_Run R (rb_ctx ?w1) ?f (rb_client (brk w)) = (y, s)"
    and w2: "w2 = ?w1\<lparr>brk := (brk ?w1)\<lparr>rb_client := s\<rparr>\<rparr>" by (auto elim: with_client_cases)
  obtain z where z: "y = Inr z" using assms(1) run
    by (cases y) (auto simp: redis_ReapOrphanedJobs_def case_prod_beta Let_def)
  from run_law [OF s] z obtain s0 where s0: "data s0 = D" "z = fst (?f s0)" "data s = data (snd (?f s0))"
    using assms(2) by auto
  then have zs: "z = Some ds" "data s = fold (zrem redisProcessingKey) ds D"
    using reap_script [OF s0(1)] assms(3) by auto
  have dec: "reap_decode unmarshal ds w2 = (rs, w')"
    using assms(1) run z zs by (auto simp: redis_ReapOrphanedJobs_def case_prod_beta Let_def)
  have "brk w' = brk w2" using dec
    by (induction ds arbitrary: w2 rs) (auto simp: alloc_job_def split: sum.splits if_splits prod.splits)
  with dec zs show ?thesis by (intro conjI exI [of _ w2]) (simp_all add: w2)
qed

end

section \<open>Concrete worlds\<close>

text \<open>
  \<open>sim_world D fs js\<close>: the server holds \<open>D\<close>, the calls fail as \<open>fs\<close> says, and the jobs
  \<open>js\<close> are allocated. \<open>demo_bytes\<close> is the payload of the job \<open>a\<close>.
\<close>

definition sim_world :: "redis_data \<Rightarrow> (nat \<Rightarrow> fault) \<Rightarrow> Job list \<Rightarrow> sim redis_world" where
  "sim_world D fs js =
     start_world \<lparr>rb_client = \<lparr>sim_data = D, sim_faults = fs, sim_closed = False\<rparr>, rb_ctx_done = False,
       rb_log = True\<rparr> js"

definition demo_bytes :: string where
  "demo_bytes = concat (map put_str (job_fields (demo_job ''a'')))"

definition empty_data :: redis_data where
  "empty_data = \<lparr>rd_list = (\<lambda>_. []), rd_zset = (\<lambda>_. [])\<rparr>"

lemma demo_bytes_codec [simp]:
  "sim_marshal (demo_job ''a'') = Inr demo_bytes" "sim_unmarshal demo_bytes = Inr (demo_job ''a'')"
proof -
  show m: "sim_marshal (demo_job ''a'') = Inr demo_bytes"
    by (simp add: sim_marshal_def demo_bytes_def demo_job_def NewJob_def)
  show "sim_unmarshal demo_bytes = Inr (demo_job ''a'')"
    using sim_round_trip [OF m] by (simp add: demo_job_def NewJob_def)
qed

lemma demo_wf: "wf_job (demo_job ''a'')"
  by (simp add: wf_job_def job_consts)

lemma demo_bytes_nonempty [simp]: "demo_bytes \<noteq> []"
  using sim_job_codec demo_bytes_codec(1) unfolding job_codec_def by blast

lemma sim_world_sel [simp]:
  "rb_client (brk (sim_world D fs js)) = \<lparr>sim_data = D, sim_faults = fs, sim_closed = False\<rparr>"
  "rb_ctx_done (brk (sim_world D fs js)) = False" "next_ref (sim_world D fs js) = length js"
  "clock (sim_world D fs js) i = int i * Second"
  "heap (sim_world D fs js) r = (if r < length js then js ! r else NewJob [] 0 [] [] None)"
  by (simp_all add: sim_world_def)

text \<open>The job \<open>a\<close> under lease, waiting in its queue, or due for a retry.\<close>

definition demo_rleased :: "sim redis_world" where
  "demo_rleased = sim_world (zadd redisProcessingKey 0 demo_bytes empty_data)
     (\<lambda>i. if even i then Fine else NoReply) [(demo_job ''a'')\<lparr>RawPayload := demo_bytes\<rparr>]"

definition demo_rqueued :: "sim redis_world" where
  "demo_rqueued = sim_world (lpush (queueKey ''default'') demo_bytes empty_data) (\<lambda>_. Fine) []"

definition demo_rretry :: "sim redis_world" where
  "demo_rretry = sim_world (zadd ''retry'' 0 demo_bytes empty_data) (\<lambda>_. Fine) []"

text \<open>The same job after a failed run, about to be scheduled.\<close>

definition demo_rfailed :: "sim redis_world" where
  "demo_rfailed = sim_world empty_data (\<lambda>_. Fine)
     [(demo_job ''a'')\<lparr>RetryCount := 1, State := JobStateFailed, RawPayload := demo_bytes\<rparr>]"

lemma stored_ok_empty: "stored_ok u empty_data"
  by (simp add: stored_ok_def queued_def members_def empty_data_def)

lemma demo_redis_invar:
  "redis_invar sim_data sim_unmarshal (\<lambda>_. True) demo_rleased"
  "redis_invar sim_data sim_unmarshal (\<lambda>_. True) demo_rqueued"
  "redis_invar sim_data sim_unmarshal (\<lambda>_. True) demo_rretry"
  "redis_invar sim_data sim_unmarshal (\<lambda>_. True) demo_rfailed"
  using stored_ok_empty stored_ok_ops(1,2) [of sim_unmarshal, OF stored_ok_empty demo_bytes_nonempty demo_bytes_codec(2)]
  by (simp_all add: redis_invar_def demo_rleased_def demo_rqueued_def demo_rretry_def demo_rfailed_def raw_ok_def)

lemmas sim_eval = with_client_def simR_def sim_cmd_def sim_read_def sim_write_def err_only_def sim_upd_def
  rb_ctx_def Let_def time_Now_def

lemmas sim_demo = demo_rqueued_def demo_rretry_def demo_rleased_def redis_data_ops FromJSON_def alloc_job_def
  queueKey_def redisProcessingKey_def empty_data_def sim_world_def start_world_def

lemma demo_dequeue:
  "\<exists>w'. redis_Dequeue simR sim_unmarshal [''default''] Second demo_rqueued = Some (Inr (Some (0, ''default'')), w') \<and>
     fst (redis_Ack simR sim_marshal 0 w') = None"
  unfolding redis_Dequeue_def Let_def case_prod_beta
  by (subst redis_poll.simps) (simp add: sim_eval sim_demo dequeueAndLeaseScript_def redis_Ack_def rawOrSerialize_def)

lemma demo_retry_cycle:
  "\<exists>w1 rs w3 w4. redis_AddToRetry simR sim_marshal 0 0 demo_rfailed = (None, w1) \<and> clock w1 0 = 0 \<and>
     redis_GetRetryJobs simR sim_unmarshal 100 w1 = (Inr rs, w3) \<and>
     redis_RemoveFromRetry simR sim_marshal (rs ! 0) w3 = (None, w4)"
proof -
  let ?j = "(demo_job ''a'')\<lparr>RetryCount := 1, State := JobStateFailed\<rparr>"
  have args: "Args (demo_job ''a'') = Some []" by (simp add: demo_job_def NewJob_def)
  obtain d where d: "sim_marshal ?j = Inr d" by (simp add: sim_marshal_def args)
  have u: "sim_unmarshal d = Inr (?j\<lparr>RawPayload := []\<rparr>)" by (rule sim_round_trip [OF d])
  have raw: "sim_marshal (?j\<lparr>RawPayload := x\<rparr>) = Inr d" for x
    using d job_codec.marshal_raw [OF sim_job_codec, of x ?j] by simp
  have cl: "clamp_decoded (?j\<lparr>RawPayload := []\<rparr>) = ?j\<lparr>RawPayload := []\<rparr>"
    by (rule clamp_decoded_id) (simp add: wf_job_def job_consts)
  show ?thesis
    by (simp add: redis_AddToRetry_def redis_GetRetryJobs_def redis_RemoveFromRetry_def ToJSON_def zrange_def
        retry_limit_def sim_eval sim_demo demo_rfailed_def u raw [simplified] cl [simplified] Unix_def)
qed

lemma demo_reap: "\<exists>rs w'. redis_ReapOrphanedJobs simR sim_unmarshal 0 demo_rleased = (Inr rs, w')"
  by (simp add: redis_ReapOrphanedJobs_def reapScript_def zrange_def sim_eval sim_demo Unix_def)

section \<open>The processor on Redis\<close>

text \<open>
  Running a job loses nothing silently on Redis, whatever calls fail and whether or not a failed call
  took effect: \<open>processJob\<close> returns, every other job stays where it was, and after a run that did
  not succeed the job waits for a retry, is dead, or the failure to record it was logged with its identifier.
\<close>

lemma redis_processJob_accounted:
  assumes "redis_broker R data marshal unmarshal utf8"
    and "redis_invar data unmarshal utf8 w" "r < next_ref w"
    and "safe_perform (redis_invar data unmarshal utf8) (redis_where data unmarshal) perform"
    and "\<forall>m \<in> set (middlewares (p_handler p)). builtin_middleware m"
    and "RecoveryMiddleware \<in> set (middlewares (p_handler p))"
  shows "\<exists>start ctx w1 err w2 w'. startJob p r q w = (start, ctx, w1) \<and>
    run_handler perform p ctx r w1 = (Returned err, w2) \<and>
    processJob (redisB R marshal unmarshal) perform p r q w = Some w' \<and>
    redis_invar data unmarshal utf8 w' \<and>
    unlease_le (JID (heap w r)) (redis_where data unmarshal w) (redis_where data unmarshal w') \<and>
    (err = None \<or> JID (heap w r) \<in>
       retrying (redis_where data unmarshal w') \<union> buried (redis_where data unmarshal w') \<union> reported w w')"
proof -
  obtain start ctx w1 where start: "startJob p r q w = (start, ctx, w1)" by (cases "startJob p r q w")
  obtain err w2 w' where run: "run_handler perform p ctx r w1 = (Returned err, w2)"
    and w': "processJob (redisB R marshal unmarshal) perform p r q w = Some w'"
    using assms(5,6) start by (rule processJob_returns)
  have "safe_handler (redis_invar data unmarshal utf8) (redis_where data unmarshal) (run_handler perform p)"
    using broker_contract.safe_run_handler [OF redis_broker.is_contract [OF assms(1)] assms(4,5)] .
  from broker_contract.processJob_accounted [OF redis_broker.is_contract [OF assms(1)] assms(2,3) this start run w'] start run w' show ?thesis by blast
qed

lemma redis_processJob_accounted_witness:
  "\<exists>w'. processJob (redisB simR sim_marshal sim_unmarshal) fails demo_processor 0 ''default'' demo_rleased = Some w' \<and>
    redis_invar sim_data sim_unmarshal (\<lambda>_. True) w' \<and>
    unlease_le ''a'' (redis_where sim_data sim_unmarshal demo_rleased) (redis_where sim_data sim_unmarshal w')"
proof -
  have safe: "safe_perform (redis_invar sim_data sim_unmarshal (\<lambda>_. True)) (redis_where sim_data sim_unmarshal) fails"
    by (simp add: safe_perform_def)
  have chain: "\<forall>m \<in> set (middlewares (p_handler (demo_processor :: sim RedisBroker Processor))). builtin_middleware m"
    "RecoveryMiddleware \<in> set (middlewares (p_handler (demo_processor :: sim RedisBroker Processor)))"
    by (auto simp: demo_processor_handler builtin_middleware_def)
  have r: "0 < next_ref demo_rleased" "JID (heap demo_rleased 0) = ''a''" by (simp_all add: demo_rleased_def)
  from redis_processJob_accounted [OF sim_redis_broker demo_redis_invar(1) r(1) safe chain, of "''default''"] r(2)
  show ?thesis by auto
qed

text \<open>
  A turn of the retry loop and a turn of the reaper on Redis keep every job the broker held, or report
  that it may be lost in a line with its identifier; only a reap that fails may cost leases silently.
\<close>

lemma redis_ticks_accounted:
  assumes "redis_broker R data marshal unmarshal utf8" "redis_invar data unmarshal utf8 w"
    and "w' = retry_tick (redisB R marshal unmarshal) p w \<or>
      w' = reaper_tick (redisB R marshal unmarshal) p w \<and> fst (redis_ReapOrphanedJobs R unmarshal 0 w) = Inr rs"
  shows "redis_invar data unmarshal utf8 w' \<and>
    held (redis_where data unmarshal w) \<subseteq> held (redis_where data unmarshal w') \<union> reported w w'"
  using broker_contract.retry_tick_accounted [OF redis_broker.is_contract [OF assms(1)] assms(2), of w' p]
    broker_contract.reaper_tick_accounted [OF redis_broker.is_contract [OF assms(1)] assms(2), of w' p] assms(3)
  by (auto simp: redisB_def split: prod.splits)

lemma redis_ticks_accounted_witness:
  "redis_invar sim_data sim_unmarshal (\<lambda>_. True) (retry_tick (redisB simR sim_marshal sim_unmarshal) demo_processor demo_rretry)"
  using redis_ticks_accounted [OF sim_redis_broker demo_redis_invar(3) disjI1 [OF refl]] by blast

section \<open>The operations\<close>

text \<open>
  C11: a successful dequeue takes the oldest payload of the first queue that has one, puts it under a
  lease of five minutes from the last time it read off the clock, and returns the job it decodes to; it returns nothing only when all the queues
  are empty, and then changes nothing.
\<close>

theorem redis_Dequeue_spec:
  assumes "redis_broker R data marshal unmarshal utf8"
    and "redis_Dequeue R unmarshal qs timeout w = Some (Inr y, w')"
  shows "map_option snd y = first_queue (data (rb_client (brk w))) qs \<and> redis_took data unmarshal w y w'"
  using redis_broker.redis_Dequeue_exact [OF assms refl] .

theorem redis_Dequeue_spec_witness:
  "\<exists>w'. redis_Dequeue simR sim_unmarshal [''default''] Second demo_rqueued = Some (Inr (Some (0, ''default'')), w') \<and>
     redis_took sim_data sim_unmarshal demo_rqueued (Some (0, ''default'')) w'"
  using demo_dequeue redis_Dequeue_spec [OF sim_redis_broker, of "[''default'']" Second demo_rqueued] by blast

lemma redis_poll_returns:
  assumes "\<forall>i \<ge> k. deadline < clock w i"
  shows "\<exists>z. redis_poll R u qs deadline w = Some z"
  using assms
proof (induction k arbitrary: w rule: less_induct)
  case (less k)
  obtain x w1 where x: "redis_scan R u qs w = (x, w1)" by fastforce
  from redis_scan_clock [of R u qs w] x obtain n where n: "clock w1 = (\<lambda>i. clock w (i + n))" by auto
  show ?case
  proof (cases x)
    case None
    show ?thesis
    proof (cases "deadline < clock w1 0")
      case True
      with x None show ?thesis by (subst redis_poll.simps) (simp add: case_prod_beta)
    next
      case False
      have "k \<noteq> 0" using less.prems False n by auto
      moreover have "\<forall>i \<ge> k - 1. deadline < clock (snd (time_Now w1)) i"
        using less.prems n by (auto simp: time_Now_def)
      ultimately obtain z where "redis_poll R u qs deadline (snd (time_Now w1)) = Some z"
        using less.IH [of "k - 1" "snd (time_Now w1)"] by fastforce
      with False x None show ?thesis by (subst redis_poll.simps) (simp add: case_prod_beta)
    qed
  next
    case (Some y)
    with x show ?thesis by (subst redis_poll.simps) simp
  qed
qed

text \<open>
  C12: \<open>Dequeue\<close> on Redis returns, whatever the server answers, as soon as the clock stays past the
  deadline.
\<close>

theorem redis_Dequeue_returns:
  assumes "\<forall>i \<ge> k. clock w 0 + timeout < clock w i"
  shows "\<exists>z. redis_Dequeue R unmarshal qs timeout w = Some z"
proof -
  have "\<forall>i \<ge> k. clock w 0 + timeout < clock (snd (time_Now w)) i" using assms by (auto simp: time_Now_def)
  from redis_poll_returns [OF this] show ?thesis by (simp add: redis_Dequeue_def case_prod_beta)
qed

theorem redis_Dequeue_returns_witness:
  "\<exists>z. redis_Dequeue simR sim_unmarshal [''default''] Second demo_rretry = Some z"
  by (rule redis_Dequeue_returns [of 2]) (simp add: demo_rretry_def)

text \<open>
  C10: dequeue and acknowledge: whatever the processor changed in the job in between, a
  successful \<open>Ack\<close> removes exactly the payload that was leased, so that all that is left of the
  job is that its queue lost its oldest entry.
\<close>

theorem redis_lease_ack:
  assumes "redis_broker R data marshal unmarshal utf8" "redis_invar data unmarshal utf8 w"
    and "redis_Dequeue R unmarshal qs timeout w = Some (Inr (Some (r, q)), w1)"
    and "brk w2 = brk w1" "same_ids w1 w2" "redis_Ack R marshal r w2 = (None, w3)"
  shows "data (rb_client (brk w3)) =
    zrem redisProcessingKey (last (rd_list (data (rb_client (brk w))) (queueKey q)))
      (rpop (queueKey q) (data (rb_client (brk w))))"
proof -
  let ?D = "data (rb_client (brk w))" let ?d = "last (rd_list ?D (queueKey q))"
  from redis_broker.redis_Dequeue_exact [OF assms(1,3) refl]
  obtain n j where t: "rd_list ?D (queueKey q) \<noteq> []" "r = next_ref w" "next_ref w1 = Suc (next_ref w)"
    "data (rb_client (brk w1)) = leased_data ?D q (clock w n)"
    "heap w1 = (heap w)(r := (clamp_decoded j)\<lparr>RawPayload := ?d\<rparr>)"
    by (auto simp: redis_took_def Let_def)
  have "?d \<in> queued ?D" using t(1) last_in_set by (fastforce simp: queued_def)
  then have d: "?d \<noteq> []" using assms(2) by (auto simp: redis_invar_def stored_ok_def)
  have "RawPayload (heap w2 r) = ?d" using same_ids_RawPayload [OF assms(5), of r] t(2,3,5) by simp
  from redis_broker.redis_ack_exact [OF assms(1,6) this d] assms(4) t(4) show ?thesis
    by (simp add: leased_data_def zrem_zadd)
qed

theorem redis_lease_ack_witness:
  "\<exists>w1 w3. redis_Dequeue simR sim_unmarshal [''default''] Second demo_rqueued = Some (Inr (Some (0, ''default'')), w1) \<and>
     redis_Ack simR sim_marshal 0 w1 = (None, w3) \<and> members (sim_data (rb_client (brk w3))) redisProcessingKey = {}"
proof -
  obtain w1 w3 where w1: "redis_Dequeue simR sim_unmarshal [''default''] Second demo_rqueued = Some (Inr (Some (0, ''default'')), w1)"
    and w3: "redis_Ack simR sim_marshal 0 w1 = (None, w3)"
    using demo_dequeue by (metis prod.collapse)
  from redis_lease_ack [OF sim_redis_broker demo_redis_invar(2) w1 refl same_ids_refl w3]
  have "members (sim_data (rb_client (brk w3))) redisProcessingKey = {}"
    by (simp add: demo_rqueued_def) (simp add: members_def empty_data_def lpush_def)
  with w1 w3 show ?thesis by blast
qed

text \<open>
  C13: what \<open>AddToRetry\<close> stores for a job that came off the wire is what \<open>RemoveFromRetry\<close> removes.
  Let the job \<open>r\<close> be decoded from a payload \<open>p\<close>, with its counters and its state changed within their
  limits. A successful \<open>AddToRetry\<close> stores a text \<open>d\<close> of it at its second. Whenever a later
  \<open>GetRetryJobs\<close> finds \<open>d\<close> among the first due payloads, at the place \<open>i\<close>, it returns there the job as it
  was stored, and a successful \<open>RemoveFromRetry\<close> of this job takes away \<open>d\<close> and nothing else.
\<close>

theorem redis_retry_exact:
  assumes "redis_broker R data marshal unmarshal utf8" "decoded_codec marshal unmarshal utf8"
    and "unmarshal p = Inr j" "heap w r = j\<lparr>Retry := m, RetryCount := c, State := st, RawPayload := x\<rparr>"
    and "wf_job (heap w r)" "utf8 st" "redis_AddToRetry R marshal r t w = (None, w1)"
  shows "\<exists>d. marshal (heap w r) = Inr d \<and>
    data (rb_client (brk w1)) = zadd ''retry'' (of_int (Unix t)) d (data (rb_client (brk w))) \<and>
    (\<forall>w2 n rs w3 ds i w4. redis_invar data unmarshal utf8 w2 \<longrightarrow>
       redis_GetRetryJobs R unmarshal n w2 = (Inr rs, w3) \<longrightarrow>
       ds = zrange 0 (of_int (Unix (clock w2 0))) (nat (max 1 (min n 10000))) (rd_zset (data (rb_client (brk w2))) ''retry'') \<longrightarrow>
       i < length ds \<longrightarrow> ds ! i = d \<longrightarrow>
       i < length rs \<and> heap w3 (rs ! i) = (heap w r)\<lparr>RawPayload := []\<rparr> \<and>
       (redis_RemoveFromRetry R marshal (rs ! i) w3 = (None, w4) \<longrightarrow>
          data (rb_client (brk w4)) = zrem ''retry'' d (data (rb_client (brk w2)))))"
proof -
  let ?j = "(heap w r)\<lparr>RawPayload := []\<rparr>"
  obtain d where d: "marshal (heap w r) = Inr d"
    "data (rb_client (brk w1)) = zadd ''retry'' (of_int (Unix t)) d (data (rb_client (brk w)))"
    using redis_broker.redis_add_retry_exact [OF assms(1,7)] by blast
  have rt: "unmarshal d = Inr ?j" "marshal ?j = Inr d"
    using decoded_codec.decoded_round_trip [OF assms(2,3,6), where m = m and c = c and x = x and d = d] d(1) assms(4)
      job_codec.marshal_raw [OF decoded_codec.axioms(1) [OF assms(2)], of "[]" "heap w r"] by simp_all
  have wf: "clamp_decoded ?j = ?j" using assms(5) by (intro clamp_decoded_id) (simp add: wf_job_def)
  have "i < length rs \<and> heap w3 (rs ! i) = ?j \<and> (redis_RemoveFromRetry R marshal (rs ! i) w3 = (None, w4) \<longrightarrow>
      data (rb_client (brk w4)) = zrem ''retry'' d (data (rb_client (brk w2))))"
    if inv: "redis_invar data unmarshal utf8 w2" and get: "redis_GetRetryJobs R unmarshal n w2 = (Inr rs, w3)"
      and "ds = zrange 0 (of_int (Unix (clock w2 0))) (nat (max 1 (min n 10000))) (rd_zset (data (rb_client (brk w2))) ''retry'')"
      and i: "i < length ds" "ds ! i = d" for w2 n rs w3 ds i w4
  proof -
    have "retry_limit n = max 1 (min n 10000)" by (simp add: retry_limit_def Let_def max_def min_def)
    with that(3) have ds: "ds = zrange 0 (of_int (Unix (clock w2 0))) (nat (retry_limit n)) (rd_zset (data (rb_client (brk w2))) ''retry'')"
      by simp
    have "\<forall>d \<in> members (data (rb_client (brk w2))) ''retry''. \<exists>j. unmarshal d = Inr j"
      using inv by (auto simp: redis_invar_def stored_ok_def)
    note ex = redis_broker.redis_get_retry_exact [OF assms(1) get refl ds this]
    then have h: "i < length rs" "heap w3 (rs ! i) = ?j" using i rt(1) wf by auto
    with redis_broker.redis_remove_retry_exact [OF assms(1), of "rs ! i" w3 w4 d] rt(2) ex show ?thesis by simp
  qed
  with d show ?thesis by blast
qed

theorem redis_retry_exact_witness:
  "\<exists>w1 rs w3 w4. redis_AddToRetry simR sim_marshal 0 0 demo_rfailed = (None, w1) \<and>
     redis_GetRetryJobs simR sim_unmarshal 100 w1 = (Inr rs, w3) \<and> RetryCount (heap w3 (rs ! 0)) = 1 \<and>
     redis_RemoveFromRetry simR sim_marshal (rs ! 0) w3 = (None, w4) \<and>
     members (sim_data (rb_client (brk w4))) ''retry'' = {}"
proof -
  let ?j = "(demo_job ''a'')\<lparr>RetryCount := 1, State := JobStateFailed\<rparr>"
  have h: "heap demo_rfailed 0 = (demo_job ''a'')\<lparr>Retry := 5, RetryCount := 1, State := JobStateFailed, RawPayload := demo_bytes\<rparr>"
    by (simp add: demo_rfailed_def demo_job_def NewJob_def job_consts)
  have wf: "wf_job (heap demo_rfailed 0)" by (simp add: h wf_job_def job_consts)
  obtain w1 rs w3 w4 where run: "redis_AddToRetry simR sim_marshal 0 0 demo_rfailed = (None, w1)" "clock w1 0 = 0"
      "redis_GetRetryJobs simR sim_unmarshal 100 w1 = (Inr rs, w3)"
      "redis_RemoveFromRetry simR sim_marshal (rs ! 0) w3 = (None, w4)"
    using demo_retry_cycle by blast
  from redis_retry_exact [OF sim_redis_broker sim_decoded_codec demo_bytes_codec(2) h wf TrueI run(1)]
  obtain d where d: "sim_data (rb_client (brk w1)) = zadd ''retry'' (of_int (Unix 0)) d (sim_data (rb_client (brk demo_rfailed)))"
    and later: "\<And>w2 n rs w3 ds i w4. redis_invar sim_data sim_unmarshal (\<lambda>_. True) w2 \<Longrightarrow>
       redis_GetRetryJobs simR sim_unmarshal n w2 = (Inr rs, w3) \<Longrightarrow>
       ds = zrange 0 (of_int (Unix (clock w2 0))) (nat (max 1 (min n 10000))) (rd_zset (sim_data (rb_client (brk w2))) ''retry'') \<Longrightarrow>
       i < length ds \<Longrightarrow> ds ! i = d \<Longrightarrow> heap w3 (rs ! i) = (heap demo_rfailed 0)\<lparr>RawPayload := []\<rparr> \<and>
       (redis_RemoveFromRetry simR sim_marshal (rs ! i) w3 = (None, w4) \<longrightarrow>
          sim_data (rb_client (brk w4)) = zrem ''retry'' d (sim_data (rb_client (brk w2))))" by blast
  have inv: "redis_invar sim_data sim_unmarshal (\<lambda>_. True) w1"
    using sim.redis_add_retry_contract [OF demo_redis_invar(4) _ run(1)] by (simp add: demo_rfailed_def)
  have ds: "zrange 0 (of_int (Unix (clock w1 0))) (nat (max 1 (min 100 10000))) (rd_zset (sim_data (rb_client (brk w1))) ''retry'') = [d]"
    unfolding d run(2) by (simp add: demo_rfailed_def zadd_def empty_data_def zrange_def Unix_def)
  from later [OF inv run(3) refl, of 0 w4] run(4) ds
  have "RetryCount (heap w3 (rs ! 0)) = 1" "sim_data (rb_client (brk w4)) = zrem ''retry'' d (sim_data (rb_client (brk w1)))"
    by (simp_all add: h)
  moreover from this(2) have "members (sim_data (rb_client (brk w4))) ''retry'' = {}"
    unfolding d by (simp add: demo_rfailed_def) (simp add: members_def empty_data_def zadd_def zrem_def)
  ultimately show ?thesis using run by blast
qed

text \<open>
  C14: a reap takes at most 100 payloads, the ones with the earliest leases among those that expired up to and
  including the current second, and removes exactly these; with fewer than 100 none that expired is left.
\<close>

theorem redis_reap_spec:
  assumes "redis_broker R data marshal unmarshal utf8" "redis_invar data unmarshal utf8 w"
    and "redis_ReapOrphanedJobs R unmarshal d w = (Inr rs, w')" "D = data (rb_client (brk w))"
    and "ds = zrange 0 (of_int (Unix (clock w 0))) 100 (rd_zset D redisProcessingKey)"
  shows "length ds \<le> 100 \<and> JID ` heap w' ` set rs = ids_of unmarshal (set ds) \<and>
    data (rb_client (brk w')) = fold (zrem redisProcessingKey) ds D \<and>
    (length ds < 100 \<longrightarrow> (\<forall>x \<in> set (rd_zset D redisProcessingKey).
       0 \<le> snd x \<longrightarrow> snd x \<le> of_int (Unix (clock w 0)) \<longrightarrow> fst x \<notin> members (data (rb_client (brk w'))) redisProcessingKey))"
proof -
  let ?due = "filter (\<lambda>x. 0 \<le> snd x \<and> snd x \<le> of_int (Unix (clock w 0))) (rd_zset D redisProcessingKey)"
  obtain w2 where ex: "data (rb_client (brk w')) = fold (zrem redisProcessingKey) ds D"
    "reap_decode unmarshal ds w2 = (rs, w')"
    using redis_broker.redis_reap_exact [OF assms(1,3-5)] by blast
  have "\<forall>d \<in> set ds. \<exists>j. unmarshal d = Inr j"
    using assms(2,4,5) set_zrange [of 0 "of_int (Unix (clock w 0))" 100 "rd_zset D redisProcessingKey"]
    by (auto simp: redis_invar_def stored_ok_def members_def)
  note eff = reap_decode_effect [OF ex(2) this]
  have len: "length ds \<le> 100" using assms(5) by (simp add: zrange_def)
  have "ds = map fst ?due" if "length ds < 100" using that assms(5) by (simp add: zrange_def)
  then have "fst x \<in> set ds" if "length ds < 100" "x \<in> set (rd_zset D redisProcessingKey)" "0 \<le> snd x"
    "snd x \<le> of_int (Unix (clock w 0))" for x using that by auto
  with len ex(1) eff show ?thesis by auto
qed

theorem redis_reap_spec_witness:
  "\<exists>rs w'. redis_ReapOrphanedJobs simR sim_unmarshal 0 demo_rleased = (Inr rs, w') \<and>
     ''a'' \<in> JID ` heap w' ` set rs"
proof -
  obtain rs w' where g: "redis_ReapOrphanedJobs simR sim_unmarshal 0 demo_rleased = (Inr rs, w')"
    using demo_reap by blast
  let ?D = "sim_data (rb_client (brk demo_rleased))"
  have ds: "zrange 0 (of_int (Unix (clock demo_rleased 0))) 100 (rd_zset ?D redisProcessingKey) = [demo_bytes]"
    by (simp add: demo_rleased_def zadd_def empty_data_def zrange_def Unix_def)
  from redis_reap_spec [OF sim_redis_broker demo_redis_invar(1) g refl refl] ds
  have "JID ` heap w' ` set rs = ids_of sim_unmarshal {demo_bytes}" by simp
  then have "''a'' \<in> JID ` heap w' ` set rs" using ids_of_insert [of sim_unmarshal demo_bytes _ "{}"] by simp
  with g show ?thesis by blast
qed

end
