(* ===== verification/Api.thy ===== *)
theory Api
  imports Client Engine Redis_Setup
begin

text \<open>
  The public entry points: the options of \<^verbatim>\<open>options.go\<close>, \<open>New\<close>, \<open>QuickStart\<close> and their
  helpers of \<^verbatim>\<open>crank.go\<close>, the broker factory of \<^verbatim>\<open>internal/broker/factory.go\<close> and the
  test engine of \<^verbatim>\<open>testharness.go\<close>. The factory is given the constructor of the Redis broker as
  the argument \<open>connect\<close>, which installs the new broker in the world; \<open>redis_connect\<close> is
  that constructor.
\<close>

section \<open>Options\<close>

text \<open>\<open>o_logger\<close> says whether a logger was given.\<close>

record 'b options =
  o_brokerKind :: string
  o_customBroker :: "'b Broker option"
  o_concurrency :: int
  o_timeout :: dur
  o_queues :: "QueueConfig list"
  o_logger :: bool
  o_retryPollInterval :: dur
  o_reaperInterval :: dur
  o_redisTimeout :: dur
  o_useTLS :: bool
  o_tlsInsecureSkip :: bool

type_synonym 'b Option = "'b options \<Rightarrow> 'b options"

definition WithBroker :: "string \<Rightarrow> 'b Option" where
  "WithBroker kind = o_brokerKind_update (\<lambda>_. kind)"

definition WithCustomBroker :: "'b Broker option \<Rightarrow> 'b Option" where
  "WithCustomBroker b = o_customBroker_update (\<lambda>_. b)"

definition WithConcurrency :: "int \<Rightarrow> 'b Option" where
  "WithConcurrency n = o_concurrency_update (\<lambda>_. n)"

definition WithTimeout_option :: "dur \<Rightarrow> 'b Option" where
  "WithTimeout_option d = o_timeout_update (\<lambda>_. d)"

definition at_least_one :: "QueueConfig \<Rightarrow> QueueConfig" where
  "at_least_one q = (if Weight q \<le> 0 then q\<lparr>Weight := 1\<rparr> else q)"

definition WithQueues :: "QueueConfig list \<Rightarrow> 'b Option" where
  "WithQueues qs = o_queues_update (\<lambda>_. map at_least_one qs)"

definition WithLogger :: "bool \<Rightarrow> 'b Option" where
  "WithLogger l = o_logger_update (\<lambda>_. l)"

definition WithRetryPollInterval :: "dur \<Rightarrow> 'b Option" where
  "WithRetryPollInterval d = o_retryPollInterval_update (\<lambda>_. d)"

definition WithReaperInterval :: "dur \<Rightarrow> 'b Option" where
  "WithReaperInterval d = o_reaperInterval_update (\<lambda>_. d)"

definition WithRedisTimeout :: "dur \<Rightarrow> 'b Option" where
  "WithRedisTimeout d = o_redisTimeout_update (\<lambda>_. d)"

definition WithTLS :: "bool \<Rightarrow> 'b Option" where
  "WithTLS use = o_useTLS_update (\<lambda>_. use)"

definition WithTLSInsecureSkipVerify :: "bool \<Rightarrow> 'b Option" where
  "WithTLSInsecureSkipVerify skip = o_tlsInsecureSkip_update (\<lambda>_. skip)"

definition defaultOptions :: "'b options" where
  "defaultOptions = \<lparr>o_brokerKind = [], o_customBroker = None, o_concurrency = 10,
     o_timeout = 8 * Second, o_queues = [\<lparr>Name = ''default'', Weight = 1\<rparr>], o_logger = False,
     o_retryPollInterval = 5 * Second, o_reaperInterval = 0, o_redisTimeout = 5 * Second,
     o_useTLS = False, o_tlsInsecureSkip = False\<rparr>"

section \<open>The seconds of a duration\<close>

text \<open>
  \<open>float64 r\<close> rounds a rational to the nearest number with 53 significant bits, ties to
  even. It is used for zero and numbers between \<open>2^-60\<close> and \<open>2^53\<close> only, where a
  \<open>float64\<close> is not subnormal. \<open>bitlen n\<close> is the number of binary digits of \<open>n\<close>.
\<close>

fun bitlen :: "nat \<Rightarrow> nat" where
  "bitlen n = (if n = 0 then 0 else Suc (bitlen (n div 2)))"

declare bitlen.simps [simp del]

definition round_even :: "rat \<Rightarrow> int" where
  "round_even r =
     (let n = \<lfloor>r\<rfloor>; f = r - of_int n in
      if f < 1 / 2 then n else if 1 / 2 < f then n + 1 else if even n then n else n + 1)"

definition scale :: "rat \<Rightarrow> nat" where
  "scale r = 113 - bitlen (nat \<lfloor>r * 2 ^ 60\<rfloor>)"

definition float64_pos :: "rat \<Rightarrow> rat" where
  "float64_pos r = of_int (round_even (r * 2 ^ scale r)) / 2 ^ scale r"

definition float64 :: "rat \<Rightarrow> rat" where
  "float64 r = (if r < 0 then - float64_pos (- r) else if r = 0 then 0 else float64_pos r)"

text \<open>\<open>Duration.Seconds\<close>; Go's division and remainder truncate towards zero.\<close>

definition Seconds :: "dur \<Rightarrow> rat" where
  "Seconds d =
     (let sec = sgn d * (\<bar>d\<bar> div Second); nsec = sgn d * (\<bar>d\<bar> mod Second)
      in float64 (of_int sec + float64 (of_int nsec / 1000000000)))"

section \<open>Construction\<close>

text \<open>\<open>oob\<close> is what converting a \<open>float64\<close> outside the range of \<open>int\<close> gives.\<close>

definition buildConfig :: "(rat \<Rightarrow> int) \<Rightarrow> 'b options \<Rightarrow> Config" where
  "buildConfig oob opts =
     (let t0 = int_of_float oob (Seconds (o_timeout opts));
          timeoutSec = (if t0 \<le> 0 then 8 else t0);
          c0 = (if o_concurrency opts \<le> 0 then 10 else o_concurrency opts);
          q0 = map at_least_one (o_queues opts);
          qConfig = (if q0 = [] then [\<lparr>Name = ''default'', Weight = 1\<rparr>] else q0);
          concurrency = (if c0 > 10000 then 10000 else c0)
      in \<lparr>Broker_kind = [], Concurrency = concurrency, Queues = qConfig, cfg_Timeout = timeoutSec,
          Redis = \<lparr>redis_URL = [], NetworkTimeout = 0, redis_UseTLS = False, redis_TLSInsecureSkipVerify = False\<rparr>,
          NATS = \<lparr>nats_URL = [], nats_Timeout = 0\<rparr>,
          RetryPollInterval = o_retryPollInterval opts, ReaperInterval = o_reaperInterval opts\<rparr>)"

type_synonym 'b connect = "RedisBrokerConfig \<Rightarrow> 'b world \<Rightarrow> (error + 'b Broker) \<times> 'b world"

definition redis_connect ::
  "'s Redis \<Rightarrow> encoder \<Rightarrow> decoder \<Rightarrow> (string \<Rightarrow> error + URL) \<Rightarrow> (URL \<Rightarrow> string) \<Rightarrow> (string \<Rightarrow> error + RedisOptions) \<Rightarrow>
     (RedisOptions \<Rightarrow> 's) \<Rightarrow> 's RedisBroker connect" where
  "redis_connect R marshal unmarshal url_Parse url_String parseURL newClient cfg w =
     (case NewRedisBrokerWithConfig R url_Parse url_String parseURL newClient cfg w of
        (Inl e, w1) \<Rightarrow> (Inl e, w1)
      | (Inr b, w1) \<Rightarrow> (Inr (redisB R marshal unmarshal), w1\<lparr>brk := b\<rparr>))"

definition openNats :: "string \<Rightarrow> ConnOptions \<Rightarrow> 'b world \<Rightarrow> (error + 'b Broker) \<times> 'b world" where
  "openNats rawURL opts w = (Inl (NotImplemented ''NATS''), w)"

definition openRedis :: "'b connect \<Rightarrow> string \<Rightarrow> ConnOptions \<Rightarrow> 'b world \<Rightarrow> (error + 'b Broker) \<times> 'b world" where
  "openRedis connect rawURL opts w =
     connect \<lparr>rcfg_URL = rawURL, rcfg_Timeout = co_Timeout opts, rcfg_UseTLS = co_UseTLS opts,
       rcfg_TLSInsecureSkipVerify = co_TLSInsecureSkipVerify opts, rcfg_Logger = co_Logger opts\<rparr> w"

definition Open ::
  "'b connect \<Rightarrow> string \<Rightarrow> string \<Rightarrow> ConnOptions \<Rightarrow> 'b world \<Rightarrow> (error + 'b Broker) \<times> 'b world" where
  "Open connect kind0 rawURL0 opts w =
     (let rawURL = TrimSpace rawURL0 in
      if rawURL = [] then (Inl BrokerURLEmpty, w)
      else
        (let kind = TrimSpace (ToLower kind0) in
         if kind = [] then (Inl BrokerKindRequired, w)
         else if kind = ''redis'' then openRedis connect rawURL opts w
         else if kind = ''nats'' then openNats rawURL opts w
         else if kind = ''pgsql'' then (Inl (NotImplemented ''PostgreSQL''), w)
         else (Inl (UnsupportedBroker kind), w)))"

definition newBroker :: "'b connect \<Rightarrow> string \<Rightarrow> 'b options \<Rightarrow> 'b world \<Rightarrow> (error + 'b Broker) \<times> 'b world" where
  "newBroker connect brokerURL opts w =
     Open connect (o_brokerKind opts) brokerURL
       \<lparr>co_Timeout = o_redisTimeout opts, co_UseTLS = o_useTLS opts,
        co_TLSInsecureSkipVerify = o_tlsInsecureSkip opts, co_Logger = o_logger opts\<rparr> w"

text \<open>A loaded configuration carries no logger: its \<open>Logger\<close> field is nil.\<close>

definition brokerURLAndOptsFromConfig :: "Config \<Rightarrow> string \<times> ConnOptions" where
  "brokerURLAndOptsFromConfig cfg =
     (if Broker_kind cfg = ''nats'' then
        (nats_URL (NATS cfg), \<lparr>co_Timeout = NATS_GetTimeout (NATS cfg), co_UseTLS = False,
           co_TLSInsecureSkipVerify = False, co_Logger = False\<rparr>)
      else if Broker_kind cfg = ''redis'' then
        (redis_URL (Redis cfg), \<lparr>co_Timeout = GetNetworkTimeout (Redis cfg), co_UseTLS = redis_UseTLS (Redis cfg),
           co_TLSInsecureSkipVerify = redis_TLSInsecureSkipVerify (Redis cfg), co_Logger = False\<rparr>)
      else ([], \<lparr>co_Timeout = 0, co_UseTLS = False, co_TLSInsecureSkipVerify = False, co_Logger = False\<rparr>))"

text \<open>\<open>n\<close> is the number of the breaker object the engine allocates.\<close>

definition crank_New ::
  "(rat \<Rightarrow> int) \<Rightarrow> 'b connect \<Rightarrow> nat \<Rightarrow> string \<Rightarrow> 'b Option list \<Rightarrow> 'b world \<Rightarrow>
     (error + 'b Engine \<times> 'b Client) \<times> 'b world" where
  "crank_New oob connect n brokerURL opts w =
     (let os = fold (\<lambda>opt. opt) opts defaultOptions;
          cfg = buildConfig oob os;
          opened = (case o_customBroker os of
             Some b \<Rightarrow> (Inr b, w)
           | None \<Rightarrow> if o_brokerKind os \<noteq> [] then newBroker connect brokerURL os w
                     else (Inl NoBrokerConfigured, w))
      in case opened of
           (Inl err, w1) \<Rightarrow> (Inl err, w1)
         | (Inr b, w1) \<Rightarrow> (let (eng, w2) = newEngine n cfg b w1 in (Inr (eng, New b (o_logger os)), w2)))"

definition QuickStart ::
  "os \<Rightarrow> 'b connect \<Rightarrow> nat \<Rightarrow> string \<Rightarrow> 'b globalClient \<Rightarrow> 'b world \<Rightarrow>
     (error + 'b Engine \<times> 'b Client) \<times> 'b globalClient \<times> 'b world" where
  "QuickStart env connect n configPath g w =
     (case Load env configPath of
        Inl err \<Rightarrow> (Inl err, g, w)
      | Inr cfg \<Rightarrow>
          (let (url, opts) = brokerURLAndOptsFromConfig cfg in
           case Open connect (Broker_kind cfg) url opts w of
             (Inl err, w1) \<Rightarrow> (Inl err, g, w1)
           | (Inr b, w1) \<Rightarrow>
               (let (eng, w2) = newEngine n cfg b w1; cl = New b False
                in (Inr (eng, cl), SetGlobal (Some cl) g, w2))))"

definition crank_SetRedactor :: "Redactor option \<Rightarrow> 'b world \<Rightarrow> 'b world" where
  "crank_SetRedactor r w = SetDefaultRedactor r w"

definition crank_GetRedactor :: "'b world \<Rightarrow> Redactor" where
  "crank_GetRedactor w = GetDefaultRedactor w"

definition NewFieldMaskingRedactor :: "(gval \<Rightarrow> string) \<Rightarrow> string list \<Rightarrow> Redactor" where
  "NewFieldMaskingRedactor leaf keys = FieldMaskingRedactor leaf keys"

definition crank_SetValidator :: "Validator option \<Rightarrow> 'b world \<Rightarrow> 'b world" where
  "crank_SetValidator v w = SetDefaultValidator v w"

definition crank_GetValidator :: "'b world \<Rightarrow> Validator option" where
  "crank_GetValidator w = GetDefaultValidator w"

section \<open>The test engine\<close>

text \<open>The broker of the test engine is the one in the world.\<close>

definition NewTestEngine ::
  "(rat \<Rightarrow> int) \<Rightarrow> nat \<Rightarrow> InMemoryBroker Option list \<Rightarrow> mem_world \<Rightarrow>
     (InMemoryBroker Engine \<times> InMemoryBroker Client) \<times> mem_world" where
  "NewTestEngine oob n opts w =
     (let os = fold (\<lambda>opt. opt) opts defaultOptions;
          cfg = buildConfig oob os;
          (eng, w1) = newEngine n cfg memB (w\<lparr>brk := NewInMemoryBroker\<rparr>)
      in ((eng, New memB (o_logger os)), w1))"

definition TestBroker_RetryJobs :: "mem_world \<Rightarrow> jobref list" where
  "TestBroker_RetryJobs w = mem_RetryJobs w"

definition TestBroker_DeadJobs :: "mem_world \<Rightarrow> jobref list" where
  "TestBroker_DeadJobs w = mem_DeadJobs w"

definition TestBroker_ProcessingJobs :: "mem_world \<Rightarrow> jobref list" where
  "TestBroker_ProcessingJobs w = mem_ProcessingJobs w"

section \<open>Rounding\<close>

lemma bitlen_le: "n < 2 ^ k \<Longrightarrow> bitlen n \<le> k"
proof (induction k arbitrary: n)
  case 0
  then show ?case by (simp add: bitlen.simps)
next
  case (Suc k)
  from Suc.prems have "n div 2 < 2 ^ k" by (simp add: less_mult_imp_div_less)
  from Suc.IH [OF this] show ?case by (subst bitlen.simps) simp
qed

lemma round_even_bounds: "\<lfloor>r\<rfloor> \<le> round_even r" "\<bar>of_int (round_even r) - r\<bar> \<le> 1 / 2"
  using floor_correct [of r] by (auto simp: round_even_def Let_def)

text \<open>A number below \<open>2 ^ k\<close> is rounded by at most half a unit of its last place.\<close>

lemma float64_error:
  assumes "0 \<le> r" "r < 2 ^ k" "k \<le> 53"
  shows "\<bar>float64 r - r\<bar> \<le> 1 / 2 ^ (54 - k)"
proof (cases "r = 0")
  case False
  have "r * 2 ^ 60 < 2 ^ (k + 60)" using assms(2) by (simp add: power_add)
  then have "\<lfloor>r * 2 ^ 60\<rfloor> < 2 ^ (k + 60)" by (simp add: floor_less_iff)
  then have "nat \<lfloor>r * 2 ^ 60\<rfloor> < 2 ^ (k + 60)"
    using assms(1) by (simp add: nat_less_iff)
  from bitlen_le [OF this] have s: "53 - k \<le> scale r" using assms(3) by (simp add: scale_def)
  let ?s = "(2 :: rat) ^ scale r"
  have "\<bar>of_int (round_even (r * ?s)) - r * ?s\<bar> / ?s \<le> 1 / 2 / ?s"
    using round_even_bounds(2) [of "r * ?s"] by (rule divide_right_mono) simp
  moreover have "\<bar>of_int (round_even (r * ?s)) - r * ?s\<bar> / ?s = \<bar>float64 r - r\<bar>"
    using assms(1) False by (simp add: float64_def float64_pos_def field_simps abs_divide [symmetric])
  moreover have "1 / 2 / ?s \<le> 1 / 2 ^ (54 - k)"
  proof -
    have "(2 :: rat) ^ (54 - k) \<le> 2 ^ Suc (scale r)" using s assms(3) by (intro power_increasing) auto
    then show ?thesis by (simp add: field_simps)
  qed
  ultimately show ?thesis by simp
qed (simp add: float64_def)

lemma float64_ge_int: "0 \<le> n \<Longrightarrow> of_int n \<le> r \<Longrightarrow> of_int n \<le> float64 r"
proof (cases "r = 0")
  case False
  assume n: "0 \<le> n" "of_int n \<le> r"
  then have pos: "0 < r" using False by (metis of_int_0_le_iff order_le_less order_trans)
  let ?s = "2 ^ scale r"
  have "of_int (n * ?s) \<le> r * ?s" using n(2) by simp
  then have "n * ?s \<le> \<lfloor>r * ?s\<rfloor>" by (simp add: le_floor_iff)
  also have "\<dots> \<le> round_even (r * ?s)" by (rule round_even_bounds(1))
  finally have "(of_int (n * ?s) :: rat) \<le> of_int (round_even (r * ?s))" by (simp only: of_int_le_iff)
  then show ?thesis using pos by (simp add: float64_def float64_pos_def field_simps)
qed (simp add: float64_def)

lemma trunc_between: "of_int a \<le> r \<Longrightarrow> r < of_int a + 1 \<Longrightarrow> 0 \<le> a \<Longrightarrow> trunc_rat r = a"
  by (simp add: trunc_rat_def floor_eq_iff)

lemma float64_sum_bounds:
  fixes a :: int and b :: rat
  assumes "0 \<le> a" "a + 1 \<le> 2 ^ k" "k \<le> 34" "0 \<le> b" "b < 1"
  shows "of_int a \<le> float64 (of_int a + float64 b)"
    "float64 (of_int a + float64 b) \<le> of_int a + b + 1 / 2 ^ 54 + 1 / 2 ^ (53 - k)"
proof -
  have e1: "\<bar>float64 b - b\<bar> \<le> 1 / 2 ^ 54" using float64_error [of b 0] assms by simp
  have fb: "0 \<le> float64 b" using float64_ge_int [of 0 b] assms by simp
  have "float64 b - b \<le> 1" using abs_le_D1 [OF e1] by (rule order_trans) simp
  moreover have "(of_int (a + 1) :: rat) \<le> of_int (2 ^ k)" using assms(2) by (simp only: of_int_le_iff)
  then have "of_int a + 1 \<le> (2 ^ k :: rat)" by simp
  moreover have "(1 :: rat) \<le> 2 ^ k" by simp
  ultimately have x: "of_int a + float64 b < 2 ^ Suc k" using assms(5) unfolding power_Suc by linarith
  have "0 \<le> of_int a + float64 b" using assms(1) fb by simp
  moreover have "Suc k \<le> 53" "54 - Suc k = 53 - k" using assms(3) by simp_all
  ultimately have e2: "\<bar>float64 (of_int a + float64 b) - (of_int a + float64 b)\<bar> \<le> 1 / 2 ^ (53 - k)"
    using float64_error [OF _ x] by metis
  show "of_int a \<le> float64 (of_int a + float64 b)" using assms(1) fb by (intro float64_ge_int) auto
  show "float64 (of_int a + float64 b) \<le> of_int a + b + 1 / 2 ^ 54 + 1 / 2 ^ (53 - k)"
    using abs_le_D1 [OF e2] abs_le_D1 [OF e1] by linarith
qed

text \<open>What \<open>d.Seconds()\<close> is for a duration that is not negative.\<close>

lemma Seconds_bounds:
  assumes "0 \<le> d" "d div Second + 1 \<le> 2 ^ k" "k \<le> 34"
  shows "of_int (d div Second) \<le> Seconds d"
    "Seconds d \<le> of_int (d div Second) + of_int (d mod Second) / 1000000000 + 1 / 2 ^ 54 + 1 / 2 ^ (53 - k)"
proof -
  have S: "Seconds d = float64 (of_int (d div Second) + float64 (of_int (d mod Second) / 1000000000))"
  proof (cases "d = 0")
    case False
    with assms(1) show ?thesis by (simp add: Seconds_def Let_def)
  qed (simp add: Seconds_def float64_def)
  have b: "(0 :: rat) \<le> of_int (d mod Second) / 1000000000" "of_int (d mod Second) / 1000000000 < (1 :: rat)"
    by (simp_all add: divide_less_eq)
  have a: "0 \<le> d div Second" using assms(1) by (simp add: pos_imp_zdiv_nonneg_iff)
  show "of_int (d div Second) \<le> Seconds d"
    "Seconds d \<le> of_int (d div Second) + of_int (d mod Second) / 1000000000 + 1 / 2 ^ 54 + 1 / 2 ^ (53 - k)"
    unfolding S by (rule float64_sum_bounds [OF a assms(2,3) b])+
qed

lemma timeout_seconds:
  assumes "0 \<le> d" "d < 2 ^ 23 * Second"
  shows "int_of_float oob (Seconds d) = d div Second"
proof -
  have d: "0 \<le> d div Second" "d div Second + 1 \<le> 2 ^ 23" using assms by (auto simp: div_less_iff_less_mult)
  have m: "d mod Second \<le> 999999999" using pos_mod_bound [of Second d] by linarith
  have "(23 :: nat) \<le> 34" by simp
  note b = Seconds_bounds [OF assms(1) d(2) this]
  have "of_int (d mod Second) / 1000000000 \<le> (999999999 / 1000000000 :: rat)"
    using m by (simp add: divide_right_mono)
  then have "Seconds d < of_int (d div Second) + 1" using b(2) by simp
  with b(1) d(1) have t: "trunc_rat (Seconds d) = d div Second" by (intro trunc_between) auto
  have "in64 (d div Second)" using d by (simp add: in64_def)
  with t show ?thesis by (simp add: int_of_float_def)
qed

lemma timeout_bound:
  assumes "0 \<le> d" "d \<le> 2 ^ 63"
  shows "0 \<le> Seconds d \<and> 0 \<le> trunc_rat (Seconds d) \<and> trunc_rat (Seconds d) \<le> 9223372036"
proof -
  let ?a = "d div Second" and ?m = "d mod Second"
  have a: "0 \<le> ?a" "?a \<le> 9223372036" using assms by auto
  have m1: "?m \<le> 854775808" if "?a = 9223372036"
    using assms(2) div_mult_mod_eq [of d Second] unfolding that by simp
  have m2: "?m \<le> 999999999" using pos_mod_bound [of Second d] by linarith
  have k: "?a + 1 \<le> 2 ^ 34" using a by simp
  note b = Seconds_bounds [OF assms(1) k order_refl]
  have "Seconds d < 9223372037"
  proof (cases "?a = 9223372036")
    case True
    have "of_int ?m / 1000000000 \<le> (854775808 / 1000000000 :: rat)" using m1 [OF True] by (simp add: divide_right_mono)
    with b(2) True show ?thesis by simp
  next
    case False
    then have "?a \<le> 9223372035" using a by linarith
    then have "of_int ?a \<le> (9223372035 :: rat)" by (metis of_int_le_iff of_int_numeral)
    moreover have "of_int ?m / 1000000000 \<le> (999999999 / 1000000000 :: rat)" using m2 by (simp add: divide_right_mono)
    ultimately show ?thesis using b(2) by simp
  qed
  then have "\<lfloor>Seconds d\<rfloor> < 9223372037" by (simp add: floor_less_iff)
  moreover have "(0 :: rat) \<le> of_int ?a" using a(1) by (simp only: of_int_0_le_iff)
  then have "0 \<le> Seconds d" using b(1) by (rule order_trans)
  then have "0 \<le> \<lfloor>Seconds d\<rfloor>" by simp
  ultimately have "0 \<le> \<lfloor>Seconds d\<rfloor>" "\<lfloor>Seconds d\<rfloor> \<le> 9223372036" by auto
  with \<open>0 \<le> Seconds d\<close> show ?thesis by (simp add: trunc_rat_def)
qed

lemma float64_neg: "float64 (- r) = - float64 r"
  by (simp add: float64_def)

lemma Seconds_neg: "Seconds (- d) = - Seconds d"
proof -
  have "- of_int a + - float64 b = - (of_int a + float64 b)" for a :: int and b by simp
  then show ?thesis
    by (simp add: Seconds_def Let_def float64_neg flip: float64_neg)
qed

lemma timeout_range:
  assumes "in64 d"
  shows "int_of_float oob (Seconds d) \<le> 9223372036 \<and> (d \<le> 0 \<longrightarrow> int_of_float oob (Seconds d) \<le> 0)"
proof (cases "0 \<le> d")
  case True
  have "d \<le> 2 ^ 63" using assms by (simp add: in64_def)
  from timeout_bound [OF True this] have "int_of_float oob (Seconds d) = trunc_rat (Seconds d)"
    by (simp add: int_of_float_def in64_def)
  moreover have "int_of_float oob (Seconds 0) = 0"
    by (simp add: Seconds_def float64_def int_of_float_def trunc_rat_def in64_def)
  ultimately show ?thesis using timeout_bound [OF True \<open>d \<le> 2 ^ 63\<close>] True by auto
next
  case False
  then have d: "0 \<le> - d" "- d \<le> 2 ^ 63" using assms by (simp_all add: in64_def)
  note b = timeout_bound [OF d]
  have "trunc_rat (Seconds d) = - trunc_rat (Seconds (- d))"
    using b by (auto simp: Seconds_neg trunc_rat_def)
  with b show ?thesis by (simp add: int_of_float_def in64_def)
qed

section \<open>Properties\<close>

text \<open>
  C40: whatever the options, the configuration is usable: between 1 and 10000 workers, at least one
  queue, positive weights, the given queue names, and a positive job timeout whose duration does not
  overflow 64 bits.
\<close>

theorem buildConfig_wf:
  assumes "in64 (o_timeout opts)" "cfg = buildConfig oob opts"
  shows "1 \<le> Concurrency cfg \<and> Concurrency cfg \<le> 10000 \<and> Queues cfg \<noteq> [] \<and>
    (\<forall>q \<in> set (Queues cfg). 1 \<le> Weight q) \<and>
    (o_queues opts \<noteq> [] \<longrightarrow> map Name (Queues cfg) = map Name (o_queues opts)) \<and>
    1 \<le> cfg_Timeout cfg \<and> GetTimeout cfg = cfg_Timeout cfg * Second"
proof -
  let ?t = "int_of_float oob (Seconds (o_timeout opts))"
  have t: "?t \<le> 9223372036" using timeout_range [OF assms(1)] by blast
  have "cfg_Timeout cfg = (if ?t \<le> 0 then 8 else ?t)" using assms(2) by (simp add: buildConfig_def Let_def)
  then have c: "1 \<le> cfg_Timeout cfg" "cfg_Timeout cfg \<le> 9223372036" using t by auto
  then have "in64 (cfg_Timeout cfg * Second)" by (intro in64_small) auto
  with c(1) assms(2) show ?thesis
    by (auto simp: GetTimeout_def buildConfig_def Let_def at_least_one_def)
qed

theorem buildConfig_wf_witness:
  "1 \<le> cfg_Timeout (buildConfig (\<lambda>_. 0) (WithTimeout_option (2 ^ 63 - 1) (defaultOptions :: unit options)))"
  using buildConfig_wf [of "WithTimeout_option (2 ^ 63 - 1) (defaultOptions :: unit options)" _ "\<lambda>_. 0", OF _ refl]
  by (simp add: WithTimeout_option_def in64_def)

text \<open>
  \<open>WithTimeout\<close> keeps whole seconds: for up to 97 days the timeout of the engine is the given
  duration rounded down to seconds, without an effect of the detour through \<open>float64\<close>; but a positive
  duration below one second becomes the default of eight seconds.
\<close>

lemma timeout_option:
  assumes "0 \<le> d" "d < 2 ^ 23 * Second"
  shows "cfg_Timeout (buildConfig oob (WithTimeout_option d opts)) = (if d < Second then 8 else d div Second)"
proof -
  have "d div Second \<le> 0 \<longleftrightarrow> d < Second"
    using zdiv_mono1 [of Second d Second] assms(1) by (auto simp: div_pos_pos_trivial)
  then show ?thesis
    using timeout_seconds [OF assms, of oob] by (simp add: buildConfig_def WithTimeout_option_def Let_def)
qed

lemma timeout_option_witness:
  "cfg_Timeout (buildConfig (\<lambda>_. 0) (WithTimeout_option (500 * Millisecond) (defaultOptions :: unit options))) = 8"
  using timeout_option [of "500 * Millisecond" "\<lambda>_. 0" "defaultOptions :: unit options"] by simp


definition demo_tls_options :: "sim RedisBroker Option list" where
  "demo_tls_options = [WithBroker '' Redis'', WithTLS True]"


text \<open>
  The factory: a blank URL, a blank kind, the two announced backends and any other name are
  refused, each with its own error and without connecting; the kind is compared without regard to
  case and surrounding blanks. A custom broker is used as it is, and without a kind \<open>New\<close> fails.
\<close>

lemma broker_choice:
  "(TrimSpace url = [] \<longrightarrow> Open connect kind url opts w = (Inl BrokerURLEmpty, w)) \<and>
   (TrimSpace url \<noteq> [] \<and> TrimSpace (ToLower kind) \<noteq> ''redis'' \<longrightarrow>
      (\<exists>e. Open connect kind url opts w = (Inl e, w) \<and>
         (e = BrokerKindRequired \<or> e = NotImplemented ''NATS'' \<or> e = NotImplemented ''PostgreSQL'' \<or>
          e = UnsupportedBroker (TrimSpace (ToLower kind))))) \<and>
   (\<forall>b. o_customBroker (fold (\<lambda>opt. opt) os defaultOptions) = Some b \<longrightarrow>
      (\<exists>eng cl w'. crank_New oob connect n url os w = (Inr (eng, cl), w') \<and> e_broker eng = b \<and> cl_broker cl = b \<and>
         brk w' = brk w)) \<and>
   (o_customBroker (fold (\<lambda>opt. opt) os defaultOptions) = None \<and> o_brokerKind (fold (\<lambda>opt. opt) os defaultOptions) = [] \<longrightarrow>
      crank_New oob connect n url os w = (Inl NoBrokerConfigured, w))"
  by (auto simp: Open_def openNats_def crank_New_def newEngine_def New_def Let_def)

end
