(* ===== verification/System.thy ===== *)
theory System
  imports Accounting Client Redis_Props
begin

text \<open>
  The running system: the goroutines \<open>Processor.Start\<close> launches (\<^verbatim>\<open>internal/queue/processor.go\<close>) and the
  clients, as a step relation over one world. The steps interleave freely, and no step makes more than one
  call of the broker: a run of a job is handed over, handled, recorded, stored and acknowledged in steps of
  its own, and the other goroutines run in between.
\<close>

section \<open>States\<close>

text \<open>
  The state of a worker goroutine: waiting on the channel; running the handler of a job; about to record
  the outcome; about to store a failed job; about to acknowledge, with the message a failed \<open>Ack\<close> logs;
  or ended.
\<close>

datatype worker_state =
    WWaiting
  | WRunning jobref string time ctx
  | WSettling jobref string dur "error option"
  | WStoring jobref error
  | WAcking jobref string
  | WEnded

text \<open>
  The retry loop: the due jobs it still has to move; the same with a job in hand that it has taken out of the
  retry set, or has then failed to enqueue; or ended.
\<close>

datatype retry_state =
    RBatch "jobref list"
  | RTaken jobref "jobref list"
  | RRescue jobref error "jobref list"
  | REnded

text \<open>The metrics loop: at its \<open>select\<close>, in the handler of an event, or ended.\<close>

datatype metrics_state = MLoop | MHandling JobEvent | MEnded

text \<open>
  \<open>s_reaper\<close> holds the jobs the reaper still has to move, and is \<open>None\<close> when
  it has ended. The last five components are a record of the history, and no step depends on them:
  \<open>s_accepted\<close> are the identifiers the system has accepted; \<open>s_done\<close> those of the jobs whose handler
  succeeded; \<open>s_acked\<close> those acknowledged since they were last dequeued; \<open>s_unseen\<close> those that
  a failed \<open>Dequeue\<close> took out of their queue and that no reap has brought back; \<open>s_lost\<close> those that a
  failed call has taken away without a log line that names them.
\<close>

record 'b sys =
  s_world :: "'b world"
  s_fetch :: fetch
  s_workers :: "worker_state list"
  s_retry :: retry_state
  s_reaper :: "jobref list option"
  s_metrics :: metrics_state
  s_accepted :: "string set"
  s_done :: "string set"
  s_acked :: "string set"
  s_unseen :: "string set"
  s_lost :: "string set"

definition sys_start :: "'b Processor \<Rightarrow> ('b world \<Rightarrow> places) \<Rightarrow> 'b world \<Rightarrow> 'b sys" where
  "sys_start p where_is w =
     \<lparr>s_world = w, s_fetch = FAgain 0, s_workers = replicate (nat (Concurrency (p_cfg p))) WWaiting,
      s_retry = RBatch [], s_reaper = Some [],
      s_metrics = (case p_events p of None \<Rightarrow> MEnded | Some _ \<Rightarrow> MLoop),
      s_accepted = held (where_is w), s_done = {}, s_acked = {}, s_unseen = {}, s_lost = {}\<rparr>"

section \<open>The jobs of the goroutines\<close>

text \<open>The jobs a goroutine is running or has still to store, and those it is about to acknowledge.\<close>

fun fetch_flight :: "fetch \<Rightarrow> jobref set" where
  "fetch_flight (FHolding r q k) = {r}"
| "fetch_flight (FRescue r) = {r}"
| "fetch_flight _ = {}"

fun fetch_acking :: "fetch \<Rightarrow> jobref set" where
  "fetch_acking (FLeave r) = {r}"
| "fetch_acking _ = {}"

fun worker_flight :: "worker_state \<Rightarrow> jobref set" where
  "worker_flight (WRunning r q start ctx) = {r}"
| "worker_flight (WSettling r q d err) = {r}"
| "worker_flight (WStoring r e) = {r}"
| "worker_flight _ = {}"

fun worker_acking :: "worker_state \<Rightarrow> jobref set" where
  "worker_acking (WAcking r m) = {r}"
| "worker_acking _ = {}"

text \<open>The jobs the retry loop works on, and the one it has taken out of the retry set.\<close>

fun retry_refs :: "retry_state \<Rightarrow> jobref set" where
  "retry_refs (RBatch rs) = set rs"
| "retry_refs (RTaken r rs) = insert r (set rs)"
| "retry_refs (RRescue r e rs) = insert r (set rs)"
| "retry_refs REnded = {}"

fun retry_hand :: "retry_state \<Rightarrow> jobref set" where
  "retry_hand (RTaken r rs) = {r}"
| "retry_hand (RRescue r e rs) = {r}"
| "retry_hand _ = {}"

definition loop_refs :: "jobref list option \<Rightarrow> jobref set" where
  "loop_refs l = (case l of None \<Rightarrow> {} | Some rs \<Rightarrow> set rs)"

definition flight_refs :: "'b sys \<Rightarrow> jobref set" where
  "flight_refs s = fetch_flight (s_fetch s) \<union> \<Union> (worker_flight ` set (s_workers s))"

definition acking_refs :: "'b sys \<Rightarrow> jobref set" where
  "acking_refs s = fetch_acking (s_fetch s) \<union> \<Union> (worker_acking ` set (s_workers s))"

text \<open>The jobs a loop has taken out of the broker and not yet put back.\<close>

definition hand_refs :: "'b sys \<Rightarrow> jobref set" where
  "hand_refs s = retry_hand (s_retry s) \<union> loop_refs (s_reaper s)"

definition sys_refs :: "'b sys \<Rightarrow> jobref set" where
  "sys_refs s = flight_refs s \<union> acking_refs s \<union> retry_refs (s_retry s) \<union> loop_refs (s_reaper s)"

definition ids :: "'b world \<Rightarrow> jobref set \<Rightarrow> string set" where
  "ids w R = JID ` heap w ` R"

text \<open>
  Where a job can be: with the broker, finished, in the hands of the retry loop or the reaper, or in
  flight after an earlier run of it gave up the lease.
\<close>

definition whereabouts :: "('b world \<Rightarrow> places) \<Rightarrow> 'b sys \<Rightarrow> string set" where
  "whereabouts where_is s =
     held (where_is (s_world s)) \<union> s_done s \<union> ids (s_world s) (hand_refs s) \<union>
     (ids (s_world s) (flight_refs s) \<inter> s_acked s)"

section \<open>Steps\<close>

text \<open>
  The history after a poll, an \<open>Ack\<close> of the job \<open>jid\<close>, and a failed reap, each in the state the step leads to.
  An \<open>Ack\<close> costs a job whose dequeue was not seen; a failed reap costs the jobs whose leases it took; neither
  counts when the job is somewhere else too.
\<close>

definition note_poll :: "('b world \<Rightarrow> places) \<Rightarrow> 'b world \<Rightarrow> 'b sys \<Rightarrow> 'b sys" where
  "note_poll where_is w s =
     (let got = ids (s_world s) (fetch_flight (s_fetch s))
      in s\<lparr>s_acked := s_acked s - got,
           s_unseen := (if got = {} then s_unseen s \<union> (pending (where_is w) - pending (where_is (s_world s)))
                        else s_unseen s - got)\<rparr>)"

definition note_ack :: "('b world \<Rightarrow> places) \<Rightarrow> string \<Rightarrow> 'b sys \<Rightarrow> 'b sys" where
  "note_ack where_is jid s =
     (let s1 = s\<lparr>s_acked := insert jid (s_acked s)\<rparr>
      in s1\<lparr>s_lost := s_lost s \<union> (({jid} \<inter> s_unseen s) - whereabouts where_is s1)\<rparr>)"

definition note_reap :: "('b world \<Rightarrow> places) \<Rightarrow> 'b world \<Rightarrow> 'b sys \<Rightarrow> 'b sys" where
  "note_reap where_is w s = s\<lparr>s_lost := s_lost s \<union> (leased (where_is w) - whereabouts where_is s)\<rparr>"

text \<open>Which calls of a handler and of the metrics handler return at all: a call may also block for ever.\<close>

record 'b returns =
  job_returns :: "ctx \<Rightarrow> jobref \<Rightarrow> 'b world \<Rightarrow> bool"
  event_returns :: "JobEvent \<Rightarrow> 'b world \<Rightarrow> bool"

text \<open>
  \<open>ok\<close> restricts the jobs the clients create. A loop whose context is cancelled while a tick or an
  event is ready may take either case of its \<open>select\<close>. The step \<open>env\<close> is anything else in the process
  that leaves the broker and the identities of the jobs alone: time, contexts, registrations, metrics.
\<close>

inductive sys_step ::
    "'b Broker \<Rightarrow> ('b world \<Rightarrow> places) \<Rightarrow> 'b perform \<Rightarrow> 'b returns \<Rightarrow> 'b Processor \<Rightarrow> (Job \<Rightarrow> bool) \<Rightarrow>
     'b sys \<Rightarrow> 'b sys \<Rightarrow> bool"
  for B where_is perform ret p ok where
  enqueue: "EnqueueWithOptions (New B lg) ctx cls q opts args (s_world s) = (Inr jid, w') \<Longrightarrow>
     ok (new_job (apply_options opts) cls q args (s_world s)) \<Longrightarrow>
     sys_step B where_is perform ret p ok s (s\<lparr>s_world := w', s_accepted := insert jid (s_accepted s)\<rparr>)"
| enqueue_fails: "EnqueueWithOptions (New B lg) ctx cls q opts args (s_world s) = (Inl e, w') \<Longrightarrow>
     ok (new_job (apply_options opts) cls q args (s_world s)) \<Longrightarrow>
     sys_step B where_is perform ret p ok s (s\<lparr>s_world := w'\<rparr>)"
| poll: "s_fetch s = FAgain k \<Longrightarrow> fetch_poll B p k (s_world s) = Some (f, w') \<Longrightarrow>
     sys_step B where_is perform ret p ok s (note_poll where_is (s_world s) (s\<lparr>s_world := w', s_fetch := f\<rparr>))"
| hand_over: "s_fetch s = FHolding r q k \<Longrightarrow> i < length (s_workers s) \<Longrightarrow> s_workers s ! i = WWaiting \<Longrightarrow>
     fetch_select True (s_world s) = (Some True, w1) \<Longrightarrow> startJob p r q w1 = (start, ctx, w2) \<Longrightarrow>
     sys_step B where_is perform ret p ok s
       (s\<lparr>s_world := w2, s_fetch := FAgain k, s_workers := (s_workers s)[i := WRunning r q start ctx]\<rparr>)"
| shutdown: "s_fetch s = FHolding r q k \<Longrightarrow>
     fetch_select (WWaiting \<in> set (s_workers s)) (s_world s) = (Some False, w1) \<Longrightarrow>
     shutdown_enqueue B r q w1 = (f, w2) \<Longrightarrow>
     sys_step B where_is perform ret p ok s (s\<lparr>s_world := w2, s_fetch := f\<rparr>)"
| rescue: "s_fetch s = FRescue r \<Longrightarrow>
     sys_step B where_is perform ret p ok s (s\<lparr>s_world := shutdown_rescue B r (s_world s), s_fetch := FLeave r\<rparr>)"
| leave: "s_fetch s = FLeave r \<Longrightarrow>
     sys_step B where_is perform ret p ok s (note_ack where_is (JID (heap (s_world s) r))
       (s\<lparr>s_world := ack_job B r ''ack failed on shutdown'' (s_world s), s_fetch := FStop\<rparr>))"
| handler: "i < length (s_workers s) \<Longrightarrow> s_workers s ! i = WRunning r q start ctx \<Longrightarrow>
     job_returns ret ctx r (s_world s) \<Longrightarrow>
     run_handler perform p ctx r (s_world s) = (Returned err, w1) \<Longrightarrow> time_Now w1 = (stop, w2) \<Longrightarrow>
     sys_step B where_is perform ret p ok s
       (s\<lparr>s_world := w2, s_workers := (s_workers s)[i := WSettling r q (stop - start) err]\<rparr>)"
| settle: "i < length (s_workers s) \<Longrightarrow> s_workers s ! i = WSettling r q d err \<Longrightarrow>
     sys_step B where_is perform ret p ok s
       (s\<lparr>s_world := record_outcome B p r q d err (s_world s),
          s_workers := (s_workers s)[i := (case err of None \<Rightarrow> WAcking r ''ack failed'' | Some e \<Rightarrow> WStoring r e)],
          s_done := (if err = None then insert (JID (heap (s_world s) r)) (s_done s) else s_done s)\<rparr>)"
| store: "i < length (s_workers s) \<Longrightarrow> s_workers s ! i = WStoring r e \<Longrightarrow>
     store_failure B p r e (s_world s) = (msg, w') \<Longrightarrow>
     sys_step B where_is perform ret p ok s
       (s\<lparr>s_world := w', s_workers := (s_workers s)[i := WAcking r msg]\<rparr>)"
| ack: "i < length (s_workers s) \<Longrightarrow> s_workers s ! i = WAcking r msg \<Longrightarrow>
     sys_step B where_is perform ret p ok s (note_ack where_is (JID (heap (s_world s) r))
       (s\<lparr>s_world := ack_job B r msg (s_world s), s_workers := (s_workers s)[i := WWaiting]\<rparr>))"
| worker_end: "i < length (s_workers s) \<Longrightarrow> s_workers s ! i = WWaiting \<Longrightarrow> s_fetch s = FStop \<Longrightarrow>
     sys_step B where_is perform ret p ok s (s\<lparr>s_workers := (s_workers s)[i := WEnded]\<rparr>)"
| retry_fetch: "s_retry s = RBatch [] \<Longrightarrow> bk_GetRetryJobs B 100 (s_world s) = (Inr rs, w') \<Longrightarrow>
     sys_step B where_is perform ret p ok s (s\<lparr>s_world := w', s_retry := RBatch rs\<rparr>)"
| retry_fetch_fails: "s_retry s = RBatch [] \<Longrightarrow> bk_GetRetryJobs B 100 (s_world s) = (Inl e, w') \<Longrightarrow>
     sys_step B where_is perform ret p ok s
       (s\<lparr>s_world := log_line Warn ''get retry jobs failed'' [(''err'', LErr e)] w'\<rparr>)"
| retry_take: "s_retry s = RBatch (r # rs) \<Longrightarrow> retry_take B p r (s_world s) = (taken, w') \<Longrightarrow>
     sys_step B where_is perform ret p ok s
       (s\<lparr>s_world := w', s_retry := (if taken then RTaken r rs else RBatch rs)\<rparr>)"
| retry_put: "s_retry s = RTaken r rs \<Longrightarrow> retry_enqueue B r (s_world s) = (res, w') \<Longrightarrow>
     sys_step B where_is perform ret p ok s
       (s\<lparr>s_world := w', s_retry := (case res of None \<Rightarrow> RBatch rs | Some err \<Rightarrow> RRescue r err rs)\<rparr>)"
| retry_rescue: "s_retry s = RRescue r err rs \<Longrightarrow>
     sys_step B where_is perform ret p ok s
       (s\<lparr>s_world := retry_again B r err (s_world s), s_retry := RBatch rs\<rparr>)"
| retry_end: "s_retry s = RBatch [] \<Longrightarrow> cancelled (s_world s) \<Longrightarrow>
     sys_step B where_is perform ret p ok s (s\<lparr>s_retry := REnded\<rparr>)"
| reap_fetch: "s_reaper s = Some [] \<Longrightarrow> bk_ReapOrphanedJobs B 0 (s_world s) = (Inr rs, w') \<Longrightarrow>
     sys_step B where_is perform ret p ok s
       (s\<lparr>s_world := w', s_reaper := Some rs, s_unseen := s_unseen s - ids w' (set rs)\<rparr>)"
| reap_fetch_fails: "s_reaper s = Some [] \<Longrightarrow> bk_ReapOrphanedJobs B 0 (s_world s) = (Inl e, w') \<Longrightarrow>
     sys_step B where_is perform ret p ok s (note_reap where_is (s_world s)
       (s\<lparr>s_world := log_line Warn ''reaper failed'' [(''err'', LErr e)] w'\<rparr>))"
| reap_move: "s_reaper s = Some (r # rs) \<Longrightarrow>
     sys_step B where_is perform ret p ok s (s\<lparr>s_world := reap_one B p r (s_world s), s_reaper := Some rs\<rparr>)"
| reap_end: "s_reaper s = Some [] \<Longrightarrow> cancelled (s_world s) \<Longrightarrow>
     sys_step B where_is perform ret p ok s (s\<lparr>s_reaper := None\<rparr>)"
| metrics_take: "s_metrics s = MLoop \<Longrightarrow> events (s_world s) = ev # evs \<Longrightarrow>
     sys_step B where_is perform ret p ok s (s\<lparr>s_world := (s_world s)\<lparr>events := evs\<rparr>, s_metrics := MHandling ev\<rparr>)"
| metrics_run: "s_metrics s = MHandling ev \<Longrightarrow> event_returns ret ev (s_world s) \<Longrightarrow>
     sys_step B where_is perform ret p ok s (s\<lparr>s_world := metrics_handle p ev (s_world s), s_metrics := MLoop\<rparr>)"
| metrics_end: "s_metrics s = MLoop \<Longrightarrow> cancelled (s_world s) \<Longrightarrow>
     sys_step B where_is perform ret p ok s (s\<lparr>s_metrics := MEnded\<rparr>)"
| stop: "sys_step B where_is perform ret p ok s (s\<lparr>s_world := Stop_begin (s_world s)\<rparr>)"
| env: "quiet (s_world s) w' \<Longrightarrow> sys_step B where_is perform ret p ok s (s\<lparr>s_world := w'\<rparr>)"

abbreviation sys_run ::
    "'b Broker \<Rightarrow> ('b world \<Rightarrow> places) \<Rightarrow> 'b perform \<Rightarrow> 'b returns \<Rightarrow> 'b Processor \<Rightarrow> (Job \<Rightarrow> bool) \<Rightarrow>
     'b sys \<Rightarrow> 'b sys \<Rightarrow> bool" where
  "sys_run B where_is perform ret p ok \<equiv> (sys_step B where_is perform ret p ok)\<^sup>*\<^sup>*"

section \<open>The invariant\<close>

text \<open>
  What an \<open>Ack\<close> of the job cannot cost: the job is at rest with the broker, done, in hand or in flight.
\<close>

definition kept :: "('b world \<Rightarrow> places) \<Rightarrow> 'b sys \<Rightarrow> string set" where
  "kept where_is s =
     at_rest (where_is (s_world s)) \<union> s_done s \<union> ids (s_world s) (hand_refs s) \<union> ids (s_world s) (flight_refs s)"

text \<open>
  \<open>w0\<close> is the world the system is observed from and \<open>X\<close> the jobs written off by then. A job is accounted
  for, and a job about to be acknowledged is accounted for without its lease.
\<close>

definition sys_inv ::
    "('b world \<Rightarrow> bool) \<Rightarrow> ('b world \<Rightarrow> places) \<Rightarrow> string set \<Rightarrow> 'b world \<Rightarrow> 'b sys \<Rightarrow> bool" where
  "sys_inv invar where_is X w0 s \<longleftrightarrow> invar (s_world s) \<and> same_ids w0 (s_world s) \<and>
     (\<forall>r \<in> sys_refs s. r < next_ref (s_world s)) \<and>
     s_accepted s \<subseteq> X \<union> whereabouts where_is s \<union> reported w0 (s_world s) \<union> s_lost s \<and>
     ids (s_world s) (acking_refs s) \<subseteq> X \<union> kept where_is s \<union> s_unseen s \<union> reported w0 (s_world s) \<union> s_lost s"

lemma loop_refs_Some [simp]: "loop_refs (Some rs) = set rs" "loop_refs None = {}"
  by (simp_all add: loop_refs_def)

lemma ids_simps [simp]: "ids w {} = {}" "ids w (insert r R) = insert (JID (heap w r)) (ids w R)"
  "ids w (R \<union> S) = ids w R \<union> ids w S"
  by (auto simp: ids_def)

lemma ids_mono: "R \<subseteq> S \<Longrightarrow> ids w R \<subseteq> ids w S"
  by (auto simp: ids_def)

lemma ids_empty [simp]: "ids w R = {} \<longleftrightarrow> R = {}"
  by (simp add: ids_def)

lemma ids_same: "same_ids w w' \<Longrightarrow> \<forall>r \<in> R. r < next_ref w \<Longrightarrow> ids w' R = ids w R"
  unfolding ids_def image_image by (rule image_cong) (auto simp: same_ids_JID)

text \<open>The jobs of the workers after one of them changed its state.\<close>

lemma workers_update:
  "\<Union> (f ` set (ws[i := x])) \<subseteq> \<Union> (f ` set ws) \<union> f x"
  "i < length ws \<Longrightarrow> \<Union> (f ` set ws) \<subseteq> \<Union> (f ` set (ws[i := x])) \<union> f (ws ! i)"
  "i < length ws \<Longrightarrow> f x \<subseteq> \<Union> (f ` set (ws[i := x]))"
  "i < length ws \<Longrightarrow> f (ws ! i) \<subseteq> \<Union> (f ` set ws)"
proof -
  show "\<Union> (f ` set (ws[i := x])) \<subseteq> \<Union> (f ` set ws) \<union> f x"
    using set_update_subset_insert [of ws i x] by fastforce
  show "f (ws ! i) \<subseteq> \<Union> (f ` set ws)" if "i < length ws" using that by (auto intro: nth_mem)
  show "f x \<subseteq> \<Union> (f ` set (ws[i := x]))" if "i < length ws"
    using set_update_memI [OF that, of x] by blast
  show "\<Union> (f ` set ws) \<subseteq> \<Union> (f ` set (ws[i := x])) \<union> f (ws ! i)" if "i < length ws"
    using that by (auto simp: in_set_conv_nth) (metis length_list_update nth_list_update_neq nth_mem)
qed

lemma workers_update_eq:
  assumes "i < length ws" "f x = f (ws ! i)" shows "\<Union> (f ` set (ws[i := x])) = \<Union> (f ` set ws)"
  using workers_update(1) [of f ws i x] workers_update(2,3) [of i ws f x] workers_update(4) [of i ws f] assms by blast

text \<open>
  The generic step: the world moves on, no reference is invented, and what is accepted stays
  accounted for, with and without its lease.
\<close>

lemma sys_inv_step:
  assumes inv: "sys_inv invar where_is X w0 s" and w': "invar (s_world s')" "same_ids (s_world s) (s_world s')"
    and refs: "sys_refs s' \<subseteq> sys_refs s \<union> R" "\<forall>r \<in> R. r < next_ref (s_world s')"
    and acc: "s_accepted s' \<subseteq> s_accepted s \<union> held (where_is (s_world s'))" "s_lost s \<subseteq> s_lost s'"
    and wh: "whereabouts where_is s \<subseteq> whereabouts where_is s' \<union> reported (s_world s) (s_world s') \<union> s_lost s'"
    and kp: "kept where_is s \<union> s_unseen s \<subseteq>
      kept where_is s' \<union> s_unseen s' \<union> reported (s_world s) (s_world s') \<union> s_lost s'"
    and ak: "ids (s_world s') (acking_refs s') \<subseteq>
      ids (s_world s) (acking_refs s) \<union> kept where_is s' \<union> reported (s_world s) (s_world s')"
  shows "sys_inv invar where_is X w0 s'"
proof -
  let ?rep = "reported w0 (s_world s')"
  have i: "same_ids w0 (s_world s)" "\<forall>r \<in> sys_refs s. r < next_ref (s_world s)"
    "s_accepted s \<subseteq> X \<union> whereabouts where_is s \<union> reported w0 (s_world s) \<union> s_lost s"
    "ids (s_world s) (acking_refs s) \<subseteq>
       X \<union> kept where_is s \<union> s_unseen s \<union> reported w0 (s_world s) \<union> s_lost s"
    using inv by (auto simp: sys_inv_def)
  have rep: "reported w0 (s_world s) \<subseteq> ?rep" "reported (s_world s) (s_world s') \<subseteq> ?rep"
    using reported_then [OF w'(2), of w0] reported_after [OF i(1) w'(2)] by auto
  have "\<forall>r \<in> sys_refs s'. r < next_ref (s_world s')"
    using i(2) w'(2) refs same_ids_valid by blast
  moreover have "held (where_is (s_world s')) \<subseteq> whereabouts where_is s'" by (auto simp: whereabouts_def)
  then have "s_accepted s' \<subseteq> X \<union> whereabouts where_is s' \<union> ?rep \<union> s_lost s'"
    using i(3) acc wh rep by blast
  moreover have "ids (s_world s') (acking_refs s') \<subseteq> X \<union> kept where_is s' \<union> s_unseen s' \<union> ?rep \<union> s_lost s'"
    using ak i(4) kp rep acc(2) by blast
  ultimately show ?thesis using w' same_ids_trans [OF i(1)] by (simp add: sys_inv_def)
qed

lemma fetch_select_quiet: "fetch_select b w = (x, w') \<Longrightarrow> quiet w w'"
  by (auto simp: fetch_select_def select_choice_def quiet_def same_ids_def Let_def split: if_splits)

lemma quiet_events [simp, intro]: "quiet w (w\<lparr>events := evs\<rparr>)"
  by (simp add: quiet_def same_ids_def)

lemma quiet_Stop_begin: "quiet w (Stop_begin w)"
  by (simp add: Stop_begin_def quiet_def same_ids_def log_line_def)

lemma retry_hand_sub: "retry_hand l \<subseteq> retry_refs l"
  by (cases l) auto

lemma part_refs:
  "flight_refs s \<subseteq> sys_refs s" "acking_refs s \<subseteq> sys_refs s" "hand_refs s \<subseteq> sys_refs s"
  using retry_hand_sub by (auto simp: sys_refs_def hand_refs_def)

text \<open>A reference that stays where it is keeps its identifier there; one that leaves is found elsewhere.\<close>

lemma ids_leave:
  assumes "same_ids w w'" "\<forall>r \<in> R. r < next_ref w" "\<forall>r \<in> R - R'. JID (heap w r) \<in> A"
  shows "ids w R \<subseteq> ids w' R' \<union> A"
proof
  fix x assume "x \<in> ids w R"
  then obtain r where r: "r \<in> R" "x = JID (heap w r)" by (auto simp: ids_def)
  show "x \<in> ids w' R' \<union> A"
  proof (cases "r \<in> R'")
    case True
    then have "JID (heap w' r) \<in> ids w' R'" by (auto simp: ids_def)
    with r assms(1,2) same_ids_JID [of w w' r] show ?thesis by simp
  qed (use r assms(3) in auto)
qed

text \<open>
  The rule for a step: a job that leaves the hands of a loop or a run is at rest with the broker, done or
  reported; a job that leaves the broker is done, in hand, in flight, unseen or reported.
\<close>

lemma sys_inv_move:
  assumes inv: "sys_inv invar where_is X w0 s" and w': "invar (s_world s')" "same_ids (s_world s) (s_world s')"
    and refs: "sys_refs s' \<subseteq> sys_refs s \<union> R" "\<forall>r \<in> R. r < next_ref (s_world s')"
    and A: "A = at_rest (where_is (s_world s')) \<union> s_done s' \<union> reported (s_world s) (s_world s')"
    and hn: "\<forall>r \<in> hand_refs s - hand_refs s'. JID (heap (s_world s) r) \<in> A"
    and fl: "\<forall>r \<in> flight_refs s - flight_refs s'. JID (heap (s_world s) r) \<in> A"
    and ak: "\<forall>r \<in> acking_refs s' - acking_refs s. r \<in> sys_refs s \<and> JID (heap (s_world s) r) \<in> A"
    and mono: "s_done s \<subseteq> s_done s'" "s_lost s \<subseteq> s_lost s'"
      "s_accepted s' \<subseteq> s_accepted s \<union> held (where_is (s_world s'))"
      "s_acked s \<subseteq> s_acked s' \<union> leased (where_is (s_world s'))"
      "s_unseen s \<subseteq> s_unseen s' \<union> ids (s_world s') (hand_refs s') \<union> ids (s_world s') (flight_refs s')"
    and rest: "at_rest (where_is (s_world s)) \<subseteq> A \<union> ids (s_world s') (hand_refs s') \<union>
      ids (s_world s') (flight_refs s') \<union> s_unseen s'"
    and hd: "held (where_is (s_world s)) \<subseteq> whereabouts where_is s' \<union> reported (s_world s) (s_world s') \<union> s_lost s'"
  shows "sys_inv invar where_is X w0 s'"
proof -
  let ?w = "s_world s" and ?w' = "s_world s'"
  have valid: "\<forall>r \<in> sys_refs s. r < next_ref ?w" using inv by (simp add: sys_inv_def)
  have h: "ids ?w (hand_refs s) \<subseteq> ids ?w' (hand_refs s') \<union> A"
    using ids_leave [OF w'(2) _ hn] valid part_refs(3) by blast
  have f: "ids ?w (flight_refs s) \<subseteq> ids ?w' (flight_refs s') \<union> A"
    using ids_leave [OF w'(2) _ fl] valid part_refs(1) by blast
  have k: "ids ?w' (acking_refs s') \<subseteq> ids ?w (acking_refs s) \<union> A"
  proof
    fix x assume "x \<in> ids ?w' (acking_refs s')"
    then obtain r where r: "r \<in> acking_refs s'" "x = JID (heap ?w' r)" by (auto simp: ids_def)
    have "r \<in> sys_refs s" using ak r(1) part_refs(2) by blast
    then have "x = JID (heap ?w r)" using r(2) same_ids_JID [OF w'(2)] valid by auto
    with ak r(1) show "x \<in> ids ?w (acking_refs s) \<union> A" by (cases "r \<in> acking_refs s") (auto simp: ids_def)
  qed
  have AW: "A \<subseteq> whereabouts where_is s' \<union> reported ?w ?w'" "A \<subseteq> kept where_is s' \<union> reported ?w ?w'"
    unfolding A by (auto simp: whereabouts_def kept_def held_rest)
  have inW: "ids ?w' (hand_refs s') \<union> s_done s' \<union> leased (where_is ?w') \<union> (ids ?w' (flight_refs s') \<inter> s_acked s')
      \<subseteq> whereabouts where_is s'" by (auto simp: whereabouts_def held_rest)
  have inK: "ids ?w' (hand_refs s') \<union> s_done s' \<union> ids ?w' (flight_refs s') \<subseteq> kept where_is s'" by (auto simp: kept_def)
  show ?thesis
  proof (rule sys_inv_step [OF inv w' refs mono(3,2)])
    have "ids ?w (flight_refs s) \<inter> s_acked s \<subseteq> whereabouts where_is s' \<union> reported ?w ?w'"
      using f mono(4) AW(1) inW by blast
    then show "whereabouts where_is s \<subseteq> whereabouts where_is s' \<union> reported ?w ?w' \<union> s_lost s'"
      unfolding whereabouts_def [of _ s] using hd h mono(1) AW(1) inW by blast
    show "kept where_is s \<union> s_unseen s \<subseteq> kept where_is s' \<union> s_unseen s' \<union> reported ?w ?w' \<union> s_lost s'"
      unfolding kept_def [of _ s] using rest h f mono(1,5) AW(2) inK by blast
    show "ids ?w' (acking_refs s') \<subseteq> ids ?w (acking_refs s) \<union> kept where_is s' \<union> reported ?w ?w'"
      using k AW(2) by blast
  qed
qed

lemma sys_inv_world: "sys_inv invar where_is X w0 s \<Longrightarrow> invar (s_world s)"
  by (simp add: sys_inv_def)

lemma sys_refsD: "sys_inv invar where_is X w0 s \<Longrightarrow> r \<in> sys_refs s \<Longrightarrow> r < next_ref (s_world s)"
  by (simp add: sys_inv_def)

lemmas sys_parts = sys_refs_def flight_refs_def acking_refs_def hand_refs_def

lemma whereabouts_history [simp]:
  "whereabouts where_is (s\<lparr>s_lost := L\<rparr>) = whereabouts where_is s"
  "whereabouts where_is (s\<lparr>s_unseen := U\<rparr>) = whereabouts where_is s"
  by (simp_all add: whereabouts_def sys_parts)

lemma note_sel [simp]:
  "s_world (note_poll where_is w s) = s_world s" "s_fetch (note_poll where_is w s) = s_fetch s"
  "s_workers (note_poll where_is w s) = s_workers s" "s_retry (note_poll where_is w s) = s_retry s"
  "s_reaper (note_poll where_is w s) = s_reaper s" "s_metrics (note_poll where_is w s) = s_metrics s"
  "s_accepted (note_poll where_is w s) = s_accepted s" "s_done (note_poll where_is w s) = s_done s"
  "s_lost (note_poll where_is w s) = s_lost s"
  "s_world (note_ack where_is j s) = s_world s" "s_fetch (note_ack where_is j s) = s_fetch s"
  "s_workers (note_ack where_is j s) = s_workers s" "s_retry (note_ack where_is j s) = s_retry s"
  "s_reaper (note_ack where_is j s) = s_reaper s" "s_metrics (note_ack where_is j s) = s_metrics s"
  "s_accepted (note_ack where_is j s) = s_accepted s" "s_done (note_ack where_is j s) = s_done s"
  "s_acked (note_ack where_is j s) = insert j (s_acked s)" "s_unseen (note_ack where_is j s) = s_unseen s"
  "s_world (note_reap where_is w s) = s_world s" "s_fetch (note_reap where_is w s) = s_fetch s"
  "s_workers (note_reap where_is w s) = s_workers s" "s_retry (note_reap where_is w s) = s_retry s"
  "s_reaper (note_reap where_is w s) = s_reaper s" "s_metrics (note_reap where_is w s) = s_metrics s"
  "s_accepted (note_reap where_is w s) = s_accepted s" "s_done (note_reap where_is w s) = s_done s"
  "s_acked (note_reap where_is w s) = s_acked s" "s_unseen (note_reap where_is w s) = s_unseen s"
  by (simp_all add: note_poll_def note_ack_def note_reap_def Let_def)

text \<open>The metrics handler of the embedding program, under the same demand as its workers.\<close>

definition safe_metrics :: "('b world \<Rightarrow> bool) \<Rightarrow> ('b world \<Rightarrow> places) \<Rightarrow> 'b Processor \<Rightarrow> bool" where
  "safe_metrics invar where_is p \<longleftrightarrow>
     (\<forall>ev w. invar w \<longrightarrow> invar (metrics_handle p ev w) \<and> same_ids w (metrics_handle p ev w) \<and>
        places_le (where_is w) (where_is (metrics_handle p ev w)))"

context broker_contract
begin

text \<open>Steps in which the broker keeps every job in its place.\<close>

lemma sys_inv_grow:
  assumes inv: "sys_inv invar where_is X w0 s" and s': "s_world s' = w'" "sys_refs s' \<subseteq> sys_refs s"
    and st: "invar w' \<and> same_ids (s_world s) w' \<and> places_le (where_is (s_world s)) (where_is w')"
    and A: "A = at_rest (where_is w') \<union> s_done s' \<union> reported (s_world s) w'"
    and hn: "\<forall>r \<in> hand_refs s - hand_refs s'. JID (heap (s_world s) r) \<in> A"
    and fl: "\<forall>r \<in> flight_refs s - flight_refs s'. JID (heap (s_world s) r) \<in> A"
    and ak: "\<forall>r \<in> acking_refs s' - acking_refs s. r \<in> sys_refs s \<and> JID (heap (s_world s) r) \<in> A"
    and same: "s_done s \<subseteq> s_done s'" "s_lost s' = s_lost s" "s_acked s' = s_acked s" "s_unseen s' = s_unseen s"
    and acc: "s_accepted s' \<subseteq> s_accepted s \<union> held (where_is w')"
  shows "sys_inv invar where_is X w0 s'"
proof (rule sys_inv_move [OF inv, of s' "{}" A])
  have le: "at_rest (where_is (s_world s)) \<subseteq> at_rest (where_is w')" "held (where_is (s_world s)) \<subseteq> held (where_is w')"
    using st places_le_rest places_le_held by blast+
  then show "at_rest (where_is (s_world s)) \<subseteq>
      A \<union> ids (s_world s') (hand_refs s') \<union> ids (s_world s') (flight_refs s') \<union> s_unseen s'"
    unfolding A by blast
  show "held (where_is (s_world s)) \<subseteq> whereabouts where_is s' \<union> reported (s_world s) (s_world s') \<union> s_lost s'"
    using le(2) by (auto simp: whereabouts_def s'(1))
qed (use assms in auto)

lemma sys_inv_quiet:
  assumes inv: "sys_inv invar where_is X w0 s" and q: "quiet (s_world s) w'" and s': "s_world s' = w'"
    and "sys_refs s' \<subseteq> sys_refs s" "hand_refs s' = hand_refs s" "flight_refs s' = flight_refs s"
      "acking_refs s' = acking_refs s" "s_done s' = s_done s" "s_accepted s' = s_accepted s" "s_lost s' = s_lost s"
      "s_acked s' = s_acked s" "s_unseen s' = s_unseen s"
  shows "sys_inv invar where_is X w0 s'"
  by (rule sys_inv_grow [OF inv s' assms(4) _ refl]) (use assms quiet_step [OF q sys_inv_world [OF inv]] in auto)

text \<open>The fetcher polls.\<close>

lemma fetch_poll_step:
  assumes "invar w" "fetch_poll B p k w = Some (f, w')"
  shows "invar w' \<and> same_ids w w' \<and> dequeue_le (where_is w) (where_is w') \<and> fetch_acking f = {} \<and>
    (\<forall>r \<in> fetch_flight f. r < next_ref w' \<and> JID (heap w' r) \<in> leased (where_is w') \<and>
       pending (where_is w) \<subseteq> insert (JID (heap w' r)) (pending (where_is w')))"
proof (cases "ctx_Err w ProcCtx = None")
  case False
  then have "w' = w" "f = FStop" using assms(2) by (auto simp: fetch_poll_def)
  with assms(1) show ?thesis by simp
next
  case True
  obtain x w1 where d: "bk_Dequeue B [p_queues p ! k] Second w = Some (x, w1)"
    using assms(2) True by (cases "bk_Dequeue B [p_queues p ! k] Second w") (auto simp: fetch_poll_def Let_def)
  note law = dequeue_law [OF assms(1) d]
  have q: "quiet w1 w'" "fetch_acking f = {}" "\<forall>r \<in> fetch_flight f. \<exists>q. x = Inr (Some (r, q))" "heap w' = heap w1"
    using assms(2) True d by (cases x; auto simp: fetch_poll_def Let_def split: option.splits)+
  have w': "invar w' \<and> same_ids w1 w' \<and> where_is w' = where_is w1" using quiet_step [OF q(1)] law by blast
  have "r < next_ref w' \<and> JID (heap w' r) \<in> leased (where_is w') \<and>
      pending (where_is w) \<subseteq> insert (JID (heap w' r)) (pending (where_is w'))" if "r \<in> fetch_flight f" for r
  proof -
    obtain y where "x = Inr (Some (r, y))" using q(3) \<open>r \<in> fetch_flight f\<close> by blast
    with law w' q(1,4) show ?thesis by (auto simp: quiet_def)
  qed
  with law w' q(2) same_ids_trans [of w w1 w'] show ?thesis by auto
qed

lemma sys_inv_poll:
  assumes inv: "sys_inv invar where_is X w0 s" and again: "s_fetch s = FAgain k"
    and poll: "fetch_poll B p k (s_world s) = Some (f, w')"
  shows "sys_inv invar where_is X w0 (note_poll where_is (s_world s) (s\<lparr>s_world := w', s_fetch := f\<rparr>))"
proof -
  let ?w = "s_world s" and ?s' = "note_poll where_is (s_world s) (s\<lparr>s_world := w', s_fetch := f\<rparr>)"
  let ?got = "ids w' (fetch_flight f)"
  note st = fetch_poll_step [OF sys_inv_world [OF inv] poll]
  have got: "?got \<subseteq> leased (where_is w')" "?got \<noteq> {} \<Longrightarrow> pending (where_is ?w) \<subseteq> pending (where_is w') \<union> ?got"
    using st by (auto simp: ids_def)
  have deq: "at_rest (where_is ?w) \<subseteq> at_rest (where_is w') \<union> (pending (where_is ?w) - pending (where_is w'))"
    using st by (auto simp: at_rest_def dequeue_le_def)
  have fl: "flight_refs ?s' = flight_refs s \<union> fetch_flight f" "hand_refs ?s' = hand_refs s"
      "acking_refs ?s' = acking_refs s" "sys_refs ?s' = sys_refs s \<union> fetch_flight f"
    using again st by (auto simp: sys_parts)
  have un: "s_unseen ?s' = (if ?got = {} then s_unseen s \<union> (pending (where_is ?w) - pending (where_is w')) else s_unseen s - ?got)"
      "s_acked ?s' = s_acked s - ?got"
    by (simp_all add: note_poll_def Let_def)
  show ?thesis
  proof (rule sys_inv_move [OF inv, of ?s' "fetch_flight f"])
    show "at_rest (where_is ?w) \<subseteq> (at_rest (where_is (s_world ?s')) \<union> s_done ?s' \<union> reported ?w (s_world ?s')) \<union>
        ids (s_world ?s') (hand_refs ?s') \<union> ids (s_world ?s') (flight_refs ?s') \<union> s_unseen ?s'"
      using deq got(2) unfolding fl(1) un by auto
    show "held (where_is ?w) \<subseteq> whereabouts where_is ?s' \<union> reported ?w (s_world ?s') \<union> s_lost ?s'"
      using dequeue_le_held [of "where_is ?w" "where_is w'"] st by (auto simp: whereabouts_def)
    show "s_acked s \<subseteq> s_acked ?s' \<union> leased (where_is (s_world ?s'))" using got(1) by (auto simp: un)
    show "s_unseen s \<subseteq> s_unseen ?s' \<union> ids (s_world ?s') (hand_refs ?s') \<union> ids (s_world ?s') (flight_refs ?s')"
      by (auto simp: un fl)
  qed (use st in \<open>auto simp: fl\<close>)
qed

text \<open>The shutdown branch of the fetcher.\<close>

lemma sys_inv_shutdown:
  assumes inv: "sys_inv invar where_is X w0 s" and hold: "s_fetch s = FHolding r q k"
    and sel: "fetch_select b (s_world s) = (x, w1)" and en: "shutdown_enqueue B r q w1 = (f, w2)"
  shows "sys_inv invar where_is X w0 (s\<lparr>s_world := w2, s_fetch := f\<rparr>)"
proof -
  let ?w = "s_world s" and ?s' = "s\<lparr>s_world := w2, s_fetch := f\<rparr>"
  have q: "quiet ?w w1" by (rule fetch_select_quiet [OF sel])
  have r: "r < next_ref ?w" using sys_refsD [OF inv, of r] hold by (simp add: sys_parts)
  have w1: "invar w1" "same_ids ?w w1" "where_is w1 = where_is ?w" "r < next_ref w1" "JID (heap w1 r) = JID (heap ?w r)"
    using quiet_step [OF q sys_inv_world [OF inv]] q r by (auto simp: quiet_def same_ids_JID)
  note acc = shutdown_enqueue_accounted [OF w1(1,4) en]
  have st: "invar w2 \<and> same_ids ?w w2 \<and> places_le (where_is ?w) (where_is w2)"
    using acc w1 same_ids_trans [OF w1(2)] by auto
  have rest: "f = FLeave r \<and> JID (heap ?w r) \<in> at_rest (where_is w2) \<or> f = FRescue r"
    using acc w1(5) by (auto simp: at_rest_def)
  show ?thesis
    by (rule sys_inv_grow [OF inv _ _ st refl]) (use rest hold in \<open>auto simp: sys_parts\<close>)
qed

lemma sys_inv_rescue:
  assumes inv: "sys_inv invar where_is X w0 s" and hold: "s_fetch s = FRescue r"
  shows "sys_inv invar where_is X w0 (s\<lparr>s_world := shutdown_rescue B r (s_world s), s_fetch := FLeave r\<rparr>)"
proof -
  let ?w = "s_world s" and ?w' = "shutdown_rescue B r (s_world s)"
  have r: "r < next_ref ?w" using sys_refsD [OF inv, of r] hold by (simp add: sys_parts)
  note acc = shutdown_rescue_accounted [OF sys_inv_world [OF inv] r refl]
  have st: "invar ?w' \<and> same_ids ?w ?w' \<and> places_le (where_is ?w) (where_is ?w')" using acc by blast
  have rest: "JID (heap ?w r) \<in> at_rest (where_is ?w') \<union> reported ?w ?w'" using acc by (auto simp: at_rest_def)
  show ?thesis
    by (rule sys_inv_grow [OF inv _ _ st refl]) (use rest hold in \<open>auto simp: sys_parts\<close>)
qed

text \<open>
  An \<open>Ack\<close>: the job loses its lease; by the invariant it was accounted for without it, or its dequeue was
  not seen.
\<close>

lemma sys_inv_ack:
  assumes inv: "sys_inv invar where_is X w0 s" and r: "r \<in> acking_refs s"
    and w': "s_world s' = ack_job B r msg (s_world s)" and refs: "sys_refs s' \<subseteq> sys_refs s" "acking_refs s' \<subseteq> acking_refs s"
      "hand_refs s' = hand_refs s" "flight_refs s' = flight_refs s"
    and same: "s_done s' = s_done s" "s_accepted s' = s_accepted s" "s_lost s' = s_lost s"
      "s_acked s' = s_acked s" "s_unseen s' = s_unseen s"
  shows "sys_inv invar where_is X w0 (note_ack where_is (JID (heap (s_world s) r)) s')"
proof -
  let ?w = "s_world s" and ?w' = "s_world s'" and ?j = "JID (heap (s_world s) r)"
  let ?n = "note_ack where_is ?j s'"
  have i: "same_ids w0 ?w" "\<forall>r \<in> sys_refs s. r < next_ref ?w"
    "s_accepted s \<subseteq> X \<union> whereabouts where_is s \<union> reported w0 ?w \<union> s_lost s"
    "ids ?w (acking_refs s) \<subseteq> X \<union> kept where_is s \<union> s_unseen s \<union> reported w0 ?w \<union> s_lost s"
    using inv by (auto simp: sys_inv_def)
  have "r < next_ref ?w" using i(2) r part_refs(2) by blast
  from ack_job_step [OF sys_inv_world [OF inv] this w'] unlease_le_rest
  have st: "invar ?w'" "same_ids ?w ?w'" "at_rest (where_is ?w) \<subseteq> at_rest (where_is ?w')"
    "leased (where_is ?w) \<subseteq> insert ?j (leased (where_is ?w'))" by blast+
  have eq: "ids ?w' (hand_refs s') = ids ?w (hand_refs s)" "ids ?w' (flight_refs s') = ids ?w (flight_refs s)"
      "ids ?w' (acking_refs s') \<subseteq> ids ?w (acking_refs s)"
    using ids_same [OF st(2), of "hand_refs s"] ids_same [OF st(2), of "flight_refs s"] ids_same [OF st(2), of "acking_refs s"]
      i(2) part_refs [of s] ids_mono [OF refs(2), of ?w'] unfolding refs(3,4) by blast+
  have rep: "reported w0 ?w \<subseteq> reported w0 ?w'" by (rule reported_then [OF st(2)])
  have parts: "hand_refs ?n = hand_refs s'" "flight_refs ?n = flight_refs s'" "acking_refs ?n = acking_refs s'"
      "sys_refs ?n = sys_refs s'" by (simp_all add: sys_parts)
  have wn: "whereabouts where_is ?n = held (where_is ?w') \<union> s_done s \<union> ids ?w (hand_refs s) \<union>
      (ids ?w (flight_refs s) \<inter> insert ?j (s_acked s))"
    by (simp add: whereabouts_def parts eq same)
  have ln: "s_lost ?n = s_lost s \<union> ({?j} \<inter> s_unseen s - whereabouts where_is ?n)"
    by (simp add: note_ack_def Let_def same)
  have kn: "kept where_is s \<subseteq> kept where_is ?n" using st(3) by (auto simp: kept_def parts eq same)
  have j: "?j \<in> X \<union> whereabouts where_is ?n \<union> reported w0 ?w' \<union> s_lost ?n"
    using i(4) r rep st(3) unfolding wn ln by (auto simp: kept_def held_rest ids_def)
  have "whereabouts where_is s \<subseteq> insert ?j (whereabouts where_is ?n)"
    using st(3,4) unfolding wn by (auto simp: whereabouts_def held_rest)
  then have "s_accepted ?n \<subseteq> X \<union> whereabouts where_is ?n \<union> reported w0 ?w' \<union> s_lost ?n"
    using i(3) j rep by (auto simp: same ln)
  moreover have "ids ?w' (acking_refs ?n) \<subseteq> X \<union> kept where_is ?n \<union> s_unseen ?n \<union> reported w0 ?w' \<union> s_lost ?n"
    using i(4) eq(3) kn rep unfolding parts ln by (auto simp: same)
  moreover have "\<forall>r \<in> sys_refs ?n. r < next_ref ?w'" using i(2) refs(1) same_ids_valid [OF st(2)] by (auto simp: parts)
  ultimately show ?thesis using st(1) same_ids_trans [OF i(1) st(2)] by (simp add: sys_inv_def)
qed

text \<open>The run of a job by a worker.\<close>

lemma worker_refs_in:
  "i < length (s_workers s) \<Longrightarrow> worker_flight (s_workers s ! i) \<union> worker_acking (s_workers s ! i) \<subseteq> sys_refs s"
  using workers_update(4) [of i "s_workers s" worker_flight] workers_update(4) [of i "s_workers s" worker_acking]
  by (auto simp: sys_parts)

lemma sys_inv_work:
  assumes inv: "sys_inv invar where_is X w0 s" and i: "i < length (s_workers s)"
    and st: "invar w' \<and> same_ids (s_world s) w' \<and> places_le (where_is (s_world s)) (where_is w')"
    and sub: "worker_flight x \<union> worker_acking x \<subseteq> worker_flight (s_workers s ! i) \<union> worker_acking (s_workers s ! i)"
    and A: "A = at_rest (where_is w') \<union> D \<union> reported (s_world s) w'" "s_done s \<subseteq> D"
    and fl: "\<forall>r \<in> worker_flight (s_workers s ! i) - worker_flight x. JID (heap (s_world s) r) \<in> A"
    and ak: "\<forall>r \<in> worker_acking x - worker_acking (s_workers s ! i). JID (heap (s_world s) r) \<in> A"
  shows "sys_inv invar where_is X w0 (s\<lparr>s_world := w', s_workers := (s_workers s)[i := x], s_done := D\<rparr>)"
proof -
  let ?ws = "s_workers s" and ?s' = "s\<lparr>s_world := w', s_workers := (s_workers s)[i := x], s_done := D\<rparr>"
  note f = workers_update(1) [of worker_flight ?ws i x] workers_update(2,3) [OF i, of worker_flight x]
    workers_update(4) [OF i, of worker_flight]
  note a = workers_update(1) [of worker_acking ?ws i x] workers_update(2,3) [OF i, of worker_acking x]
    workers_update(4) [OF i, of worker_acking]
  have refs: "flight_refs ?s' \<subseteq> flight_refs s \<union> worker_flight x" "acking_refs ?s' \<subseteq> acking_refs s \<union> worker_acking x"
    "flight_refs s \<subseteq> flight_refs ?s' \<union> worker_flight (?ws ! i)" "worker_flight x \<subseteq> flight_refs ?s'"
    "worker_acking (?ws ! i) \<subseteq> acking_refs s" "worker_flight (?ws ! i) \<subseteq> flight_refs s" "hand_refs ?s' = hand_refs s"
    using f a by (auto simp: sys_parts)
  have all: "sys_refs ?s' \<subseteq> sys_refs s"
  proof -
    have "flight_refs ?s' \<union> acking_refs ?s' \<subseteq> flight_refs s \<union> acking_refs s" using refs(1,2,5,6) sub by blast
    then show ?thesis by (auto simp: sys_refs_def)
  qed
  show ?thesis
  proof (rule sys_inv_grow [OF inv _ all st, where A = A])
    show "\<forall>r \<in> flight_refs s - flight_refs ?s'. JID (heap (s_world s) r) \<in> A" using fl refs(3,4) by blast
    show "\<forall>r \<in> acking_refs ?s' - acking_refs s. r \<in> sys_refs s \<and> JID (heap (s_world s) r) \<in> A"
    proof
      fix r assume "r \<in> acking_refs ?s' - acking_refs s"
      then have "r \<in> worker_acking x" "r \<notin> worker_acking (?ws ! i)" using refs(2,5) by blast+
      with sub refs(6) part_refs(1) [of s] ak show "r \<in> sys_refs s \<and> JID (heap (s_world s) r) \<in> A" by blast
    qed
  qed (use A refs(7) in auto)
qed

lemma sys_inv_handler:
  assumes inv: "sys_inv invar where_is X w0 s" and safe: "safe_handler invar where_is (run_handler perform p)"
    and w: "i < length (s_workers s)" "s_workers s ! i = WRunning r q start ctx"
    and run: "run_handler perform p ctx r (s_world s) = (out, w1)" "time_Now w1 = (stop, w2)"
  shows "sys_inv invar where_is X w0
    (s\<lparr>s_world := w2, s_workers := (s_workers s)[i := WSettling r q (stop - start) err]\<rparr>)"
proof -
  have r: "r < next_ref (s_world s)" using sys_refsD [OF inv] worker_refs_in [OF w(1)] w(2) by auto
  have "w2 = snd (time_Now w1)" using run(2) by simp
  with safe_after [OF safe sys_inv_world [OF inv] r quiet_refl run(1) quiet_time_Now]
  have st: "invar w2 \<and> same_ids (s_world s) w2 \<and> places_le (where_is (s_world s)) (where_is w2)" by simp
  from sys_inv_work [OF inv w(1) st _ refl order_refl, of "WSettling r q (stop - start) err"] w(2) show ?thesis by simp
qed

lemma sys_inv_settle:
  assumes inv: "sys_inv invar where_is X w0 s" and w: "i < length (s_workers s)" "s_workers s ! i = WSettling r q d err"
  shows "sys_inv invar where_is X w0
    (s\<lparr>s_world := record_outcome B p r q d err (s_world s),
       s_workers := (s_workers s)[i := (case err of None \<Rightarrow> WAcking r ''ack failed'' | Some e \<Rightarrow> WStoring r e)],
       s_done := (if err = None then insert (JID (heap (s_world s) r)) (s_done s) else s_done s)\<rparr>)"
proof -
  have r: "r < next_ref (s_world s)" using sys_refsD [OF inv] worker_refs_in [OF w(1)] w(2) by auto
  have st: "invar (record_outcome B p r q d err (s_world s)) \<and>
      same_ids (s_world s) (record_outcome B p r q d err (s_world s)) \<and>
      places_le (where_is (s_world s)) (where_is (record_outcome B p r q d err (s_world s)))"
    using record_outcome_step [OF sys_inv_world [OF inv] r refl] by simp
  show ?thesis
    by (rule sys_inv_work [OF inv w(1) st _ refl]) (use w(2) in \<open>auto split: option.splits\<close>)
qed

lemma sys_inv_store:
  assumes inv: "sys_inv invar where_is X w0 s" and w: "i < length (s_workers s)" "s_workers s ! i = WStoring r e"
    and store: "store_failure B p r e (s_world s) = (msg, w')"
  shows "sys_inv invar where_is X w0 (s\<lparr>s_world := w', s_workers := (s_workers s)[i := WAcking r msg]\<rparr>)"
proof -
  have r: "r < next_ref (s_world s)" using sys_refsD [OF inv] worker_refs_in [OF w(1)] w(2) by auto
  note acc = store_failure_accounted [OF sys_inv_world [OF inv] r store]
  then have st: "invar w' \<and> same_ids (s_world s) w' \<and> places_le (where_is (s_world s)) (where_is w')" by blast
  have "JID (heap (s_world s) r) \<in> at_rest (where_is w') \<union> reported (s_world s) w'" using acc by (auto simp: at_rest_def)
  with sys_inv_work [OF inv w(1) st _ refl order_refl, of "WAcking r msg"] w(2) show ?thesis by auto
qed

text \<open>The retry loop.\<close>

lemma sys_inv_retry_fetch:
  assumes inv: "sys_inv invar where_is X w0 s" and idle: "s_retry s = RBatch []"
    and get: "bk_GetRetryJobs B 100 (s_world s) = (x, w')"
  shows "x = Inr rs \<Longrightarrow> sys_inv invar where_is X w0 (s\<lparr>s_world := w', s_retry := RBatch rs\<rparr>)"
    "sys_inv invar where_is X w0 (s\<lparr>s_world := log_line l m ks w'\<rparr>)"
proof -
  note law = get_retry_law [OF sys_inv_world [OF inv] get]
  show "sys_inv invar where_is X w0 (s\<lparr>s_world := w', s_retry := RBatch rs\<rparr>)" if "x = Inr rs"
    by (rule sys_inv_move [OF inv _ _ _ _ refl, of _ "set rs"])
      (use law that idle in \<open>auto simp: sys_parts whereabouts_def\<close>)
  have st: "invar (log_line l m ks w') \<and> same_ids (s_world s) (log_line l m ks w') \<and>
      places_le (where_is (s_world s)) (where_is (log_line l m ks w'))"
    using law quiet_step [OF quiet_log_line, of w'] same_ids_trans [of "s_world s" w'] by simp
  show "sys_inv invar where_is X w0 (s\<lparr>s_world := log_line l m ks w'\<rparr>)"
    by (rule sys_inv_grow [OF inv _ _ st refl]) (auto simp: sys_parts)
qed

lemma sys_inv_retry_take:
  assumes inv: "sys_inv invar where_is X w0 s" and rs: "s_retry s = RBatch (r # rs)"
    and take: "retry_take B p r (s_world s) = (taken, w')"
  shows "sys_inv invar where_is X w0 (s\<lparr>s_world := w', s_retry := (if taken then RTaken r rs else RBatch rs)\<rparr>)"
proof -
  have r: "r < next_ref (s_world s)" using sys_refsD [OF inv, of r] rs by (simp add: sys_parts)
  note acc = retry_take_accounted [OF sys_inv_world [OF inv] r take]
  have j: "JID (heap w' r) = JID (heap (s_world s) r)" using acc r same_ids_JID by blast
  show ?thesis
    by (rule sys_inv_move [OF inv _ _ _ _ refl, of _ "{}"])
      (use acc rs j in \<open>auto simp: sys_parts whereabouts_def held_rest\<close>)
qed

lemma sys_inv_retry_put:
  assumes inv: "sys_inv invar where_is X w0 s" and rs: "s_retry s = RTaken r rs"
    and en: "retry_enqueue B r (s_world s) = (res, w')"
  shows "sys_inv invar where_is X w0
    (s\<lparr>s_world := w', s_retry := (case res of None \<Rightarrow> RBatch rs | Some err \<Rightarrow> RRescue r err rs)\<rparr>)"
proof -
  have r: "r < next_ref (s_world s)" using sys_refsD [OF inv, of r] rs by (simp add: sys_parts)
  note acc = retry_enqueue_accounted [OF sys_inv_world [OF inv] r en]
  then have st: "invar w' \<and> same_ids (s_world s) w' \<and> places_le (where_is (s_world s)) (where_is w')" by blast
  show ?thesis
    by (rule sys_inv_grow [OF inv _ _ st refl])
      (use acc rs in \<open>auto simp: sys_parts at_rest_def split: option.splits\<close>)
qed

lemma sys_inv_retry_rescue:
  assumes inv: "sys_inv invar where_is X w0 s" and rs: "s_retry s = RRescue r err rs"
  shows "sys_inv invar where_is X w0 (s\<lparr>s_world := retry_again B r err (s_world s), s_retry := RBatch rs\<rparr>)"
proof -
  let ?w' = "retry_again B r err (s_world s)"
  have r: "r < next_ref (s_world s)" using sys_refsD [OF inv, of r] rs by (simp add: sys_parts)
  note acc = retry_again_accounted [OF sys_inv_world [OF inv] r refl, of err]
  then have st: "invar ?w' \<and> same_ids (s_world s) ?w' \<and> places_le (where_is (s_world s)) (where_is ?w')" by blast
  show ?thesis
    by (rule sys_inv_grow [OF inv _ _ st refl]) (use acc rs in \<open>auto simp: sys_parts at_rest_def\<close>)
qed

text \<open>The reaper.\<close>

lemma sys_inv_reap_fetch:
  assumes inv: "sys_inv invar where_is X w0 s" and idle: "s_reaper s = Some []"
    and reap: "bk_ReapOrphanedJobs B 0 (s_world s) = (Inr rs, w')"
  shows "sys_inv invar where_is X w0
    (s\<lparr>s_world := w', s_reaper := Some rs, s_unseen := s_unseen s - ids w' (set rs)\<rparr>)"
proof -
  note law = reap_law [OF sys_inv_world [OF inv] reap]
  have le: "at_rest (where_is (s_world s)) \<subseteq> at_rest (where_is w')"
    "leased (where_is (s_world s)) \<subseteq> leased (where_is w') \<union> ids w' (set rs)"
    using law by (auto simp: places_le_def at_rest_def ids_def)
  show ?thesis
    by (rule sys_inv_move [OF inv _ _ _ _ refl, of _ "set rs"])
      (use law le idle in \<open>auto simp: sys_parts whereabouts_def held_rest\<close>)
qed

lemma sys_inv_reap_fails:
  assumes inv: "sys_inv invar where_is X w0 s" and reap: "bk_ReapOrphanedJobs B 0 (s_world s) = (Inl e, w')"
    and w2: "w2 = log_line Warn ''reaper failed'' k w'"
  shows "sys_inv invar where_is X w0 (note_reap where_is (s_world s) (s\<lparr>s_world := w2\<rparr>))"
proof -
  let ?s' = "note_reap where_is (s_world s) (s\<lparr>s_world := w2\<rparr>)"
  note law = reap_law [OF sys_inv_world [OF inv] reap]
  have st: "invar w2" "same_ids (s_world s) w2" "at_rest (where_is (s_world s)) \<subseteq> at_rest (where_is w2)"
    using law quiet_step [OF quiet_log_line, of w'] same_ids_trans [of "s_world s" w']
    by (auto simp: w2 places_le_def at_rest_def)
  have wh: "whereabouts where_is ?s' = whereabouts where_is (s\<lparr>s_world := w2\<rparr>)" by (simp add: note_reap_def)
  have "at_rest (where_is (s_world s)) \<subseteq> whereabouts where_is (s\<lparr>s_world := w2\<rparr>)"
    using st(3) by (auto simp: whereabouts_def held_rest)
  then have hd: "held (where_is (s_world s)) \<subseteq> whereabouts where_is ?s' \<union> s_lost ?s'"
    unfolding wh held_rest by (auto simp: note_reap_def)
  show ?thesis
    by (rule sys_inv_move [OF inv _ _ _ _ refl, of _ "{}"])
      (use st hd in \<open>auto simp: sys_parts\<close>, simp add: note_reap_def)
qed

lemma sys_inv_reap_move:
  assumes inv: "sys_inv invar where_is X w0 s" and rs: "s_reaper s = Some (r # rs)"
  shows "sys_inv invar where_is X w0 (s\<lparr>s_world := reap_one B p r (s_world s), s_reaper := Some rs\<rparr>)"
proof -
  let ?w' = "reap_one B p r (s_world s)"
  have r: "r < next_ref (s_world s)" using sys_refsD [OF inv, of r] rs by (simp add: sys_parts)
  note acc = reap_one_accounted [OF sys_inv_world [OF inv] r refl, of p]
  then have st: "invar ?w' \<and> same_ids (s_world s) ?w' \<and> places_le (where_is (s_world s)) (where_is ?w')" by blast
  show ?thesis
    by (rule sys_inv_grow [OF inv _ _ st refl]) (use acc rs in \<open>auto simp: sys_parts at_rest_def\<close>)
qed

text \<open>The clients and the metrics handler.\<close>

lemma sys_inv_enqueue:
  assumes inv: "sys_inv invar where_is X w0 s"
    and enq: "EnqueueWithOptions (New B lg) ctx cls q opts args (s_world s) = (res, w')"
    and adm: "admissible (new_job (apply_options opts) cls q args (s_world s))"
    and s': "s' = s\<lparr>s_world := w', s_accepted := (case res of Inl _ \<Rightarrow> s_accepted s | Inr jid \<Rightarrow> insert jid (s_accepted s))\<rparr>"
  shows "sys_inv invar where_is X w0 s'"
proof -
  have "cl_broker (New B lg) = B" by (simp add: New_def)
  note pl = enqueue_job_places [OF sys_inv_world [OF inv] this enq [unfolded EnqueueWithOptions_def] adm]
  have st: "invar w' \<and> same_ids (s_world s) w' \<and> places_le (where_is (s_world s)) (where_is w')"
    using pl by (auto simp: places_le_def split: sum.splits)
  show ?thesis
    by (rule sys_inv_grow [OF inv _ _ st refl]) (use pl in \<open>auto simp: s' sys_parts held_def split: sum.splits\<close>)
qed

lemma sys_inv_metrics:
  assumes inv: "sys_inv invar where_is X w0 s" and safe: "safe_metrics invar where_is p"
  shows "sys_inv invar where_is X w0 (s\<lparr>s_world := metrics_handle p ev (s_world s), s_metrics := m\<rparr>)"
proof -
  have st: "invar (metrics_handle p ev (s_world s)) \<and> same_ids (s_world s) (metrics_handle p ev (s_world s)) \<and>
      places_le (where_is (s_world s)) (where_is (metrics_handle p ev (s_world s)))"
    using safe sys_inv_world [OF inv] by (simp add: safe_metrics_def)
  show ?thesis by (rule sys_inv_grow [OF inv _ _ st refl]) (auto simp: sys_parts)
qed

lemma sys_step_keeps:
  assumes "sys_step B where_is perform ret p ok s s'" and inv: "sys_inv invar where_is X w0 s"
    and safe: "safe_handler invar where_is (run_handler perform p)" "safe_metrics invar where_is p"
    and ok: "\<And>j. ok j \<Longrightarrow> admissible j"
  shows "sys_inv invar where_is X w0 s'"
  using assms(1)
proof (cases rule: sys_step.cases)
  case (enqueue lg ctx cls q opts args jid w')
  then show ?thesis using sys_inv_enqueue [OF inv enqueue(2) ok] by simp
next
  case (enqueue_fails lg ctx cls q opts args e w')
  then show ?thesis using sys_inv_enqueue [OF inv enqueue_fails(2) ok] by simp
next
  case (poll k f w')
  show ?thesis unfolding poll(1) by (rule sys_inv_poll [OF inv poll(2,3)])
next
  case (hand_over r q k i w1 start ctx w2)
  show ?thesis
    by (rule sys_inv_quiet [OF inv quiet_trans [OF fetch_select_quiet [OF hand_over(5)] startJob_quiet(1) [OF hand_over(6)]]])
      (use hand_over(1-4) workers_update(1) [of worker_flight "s_workers s" i "WRunning r q start ctx"]
         workers_update(2,3) [OF hand_over(3), of worker_flight "WRunning r q start ctx"]
         workers_update_eq [OF hand_over(3), of worker_acking "WRunning r q start ctx"] in \<open>auto simp: sys_parts\<close>)
next
  case (shutdown r q k w1 f w2)
  show ?thesis unfolding shutdown(1) by (rule sys_inv_shutdown [OF inv shutdown(2-4)])
next
  case (rescue r)
  show ?thesis unfolding rescue(1) by (rule sys_inv_rescue [OF inv rescue(2)])
next
  case (leave r)
  show ?thesis unfolding leave(1)
    by (rule sys_inv_ack [OF inv, where msg = "''ack failed on shutdown''"]) (use leave(2) in \<open>auto simp: sys_parts\<close>)
next
  case (handler i r q start ctx err w1 stop w2)
  show ?thesis unfolding handler(1) by (rule sys_inv_handler [OF inv safe(1) handler(2,3,5,6)])
next
  case (settle i r q d err)
  show ?thesis unfolding settle(1) by (rule sys_inv_settle [OF inv settle(2,3)])
next
  case (store i r e msg w')
  show ?thesis unfolding store(1) by (rule sys_inv_store [OF inv store(2-4)])
next
  case (ack i r msg)
  show ?thesis unfolding ack(1)
    by (rule sys_inv_ack [OF inv, where msg = msg])
      (use ack(2,3) workers_update(4) [OF ack(2), of worker_acking] workers_update(1) [of worker_acking "s_workers s" i WWaiting]
         workers_update_eq [OF ack(2), of worker_flight WWaiting] in \<open>auto simp: sys_parts\<close>)
next
  case (worker_end i)
  show ?thesis
    by (rule sys_inv_quiet [OF inv quiet_refl])
      (use worker_end(1-3) workers_update_eq [OF worker_end(2), of worker_flight WEnded]
         workers_update_eq [OF worker_end(2), of worker_acking WEnded] in \<open>auto simp: sys_parts\<close>)
next
  case (retry_fetch rs w')
  show ?thesis unfolding retry_fetch(1) by (rule sys_inv_retry_fetch(1) [OF inv retry_fetch(2,3) refl])
next
  case (retry_fetch_fails e w')
  show ?thesis unfolding retry_fetch_fails(1) by (rule sys_inv_retry_fetch(2) [OF inv retry_fetch_fails(2,3)])
next
  case (retry_take r rs taken w')
  show ?thesis unfolding retry_take(1) by (rule sys_inv_retry_take [OF inv retry_take(2,3)])
next
  case (retry_put r rs res w')
  show ?thesis unfolding retry_put(1) by (rule sys_inv_retry_put [OF inv retry_put(2,3)])
next
  case (retry_rescue r err rs)
  show ?thesis unfolding retry_rescue(1) by (rule sys_inv_retry_rescue [OF inv retry_rescue(2)])
next
  case retry_end
  show ?thesis by (rule sys_inv_quiet [OF inv quiet_refl]) (auto simp: retry_end(1,2) sys_parts)
next
  case (reap_fetch rs w')
  show ?thesis unfolding reap_fetch(1) by (rule sys_inv_reap_fetch [OF inv reap_fetch(2,3)])
next
  case (reap_fetch_fails e w')
  show ?thesis unfolding reap_fetch_fails(1) by (rule sys_inv_reap_fails [OF inv reap_fetch_fails(3) refl])
next
  case (reap_move r rs)
  show ?thesis unfolding reap_move(1) by (rule sys_inv_reap_move [OF inv reap_move(2)])
next
  case reap_end
  show ?thesis by (rule sys_inv_quiet [OF inv quiet_refl]) (auto simp: reap_end sys_parts)
next
  case (metrics_take ev evs)
  show ?thesis by (rule sys_inv_quiet [OF inv quiet_events]) (auto simp: metrics_take(1) sys_parts)
next
  case (metrics_run ev)
  show ?thesis unfolding metrics_run(1) by (rule sys_inv_metrics [OF inv safe(2)])
next
  case metrics_end
  show ?thesis by (rule sys_inv_quiet [OF inv quiet_refl]) (auto simp: metrics_end(1) sys_parts)
next
  case stop
  show ?thesis by (rule sys_inv_quiet [OF inv quiet_Stop_begin]) (auto simp: stop sys_parts)
next
  case (env w')
  show ?thesis by (rule sys_inv_quiet [OF inv env(2)]) (auto simp: env(1) sys_parts)
qed

lemma sys_run_keeps:
  assumes "sys_run B where_is perform ret p ok (sys_start p where_is w0) s" "invar w0"
    and "safe_handler invar where_is (run_handler perform p)" "safe_metrics invar where_is p"
    and "\<And>j. ok j \<Longrightarrow> admissible j"
  shows "sys_inv invar where_is {} w0 s"
  using assms(1)
proof (induction rule: rtranclp_induct)
  case base
  have "\<Union> (worker_flight ` set (replicate n WWaiting)) = {}" "\<Union> (worker_acking ` set (replicate n WWaiting)) = {}" for n
    by auto
  then show ?case using assms(2) by (auto simp: sys_inv_def sys_start_def sys_parts whereabouts_def)
next
  case (step a b)
  from step(2,3) assms(3-5) show ?case by (rule sys_step_keeps)
qed

text \<open>What the invariant says of one state carries over a step from it: in particular no context comes back.\<close>

lemma sys_step_ids:
  assumes "sys_step B where_is perform ret p ok s s'" "invar (s_world s)" "\<forall>r \<in> sys_refs s. r < next_ref (s_world s)"
    and "safe_handler invar where_is (run_handler perform p)" "safe_metrics invar where_is p"
    and "\<And>j. ok j \<Longrightarrow> admissible j"
  shows "invar (s_world s') \<and> same_ids (s_world s) (s_world s') \<and> (\<forall>r \<in> sys_refs s'. r < next_ref (s_world s'))"
proof -
  have "sys_inv invar where_is UNIV (s_world s) s" using assms(2,3) by (simp add: sys_inv_def)
  from sys_step_keeps [OF assms(1) this assms(4-6)] show ?thesis by (simp add: sys_inv_def)
qed

end

text \<open>On a broker that does not lose replies no job is lost or unseen.\<close>

context reliable_broker
begin

lemma fetch_poll_sees:
  assumes "invar w" "fetch_poll B p k w = Some (f, w')" "fetch_flight f = {}"
  shows "pending (where_is w) \<subseteq> pending (where_is w')"
proof (cases "ctx_Err w ProcCtx = None")
  case False
  then show ?thesis using assms(2) by (auto simp: fetch_poll_def)
next
  case True
  obtain x w1 where d: "bk_Dequeue B [p_queues p ! k] Second w = Some (x, w1)"
    using assms(2) True by (cases "bk_Dequeue B [p_queues p ! k] Second w") (auto simp: fetch_poll_def Let_def)
  note law = dequeue_law [OF assms(1) d]
  have q: "quiet w1 w'" "\<forall>y. x \<noteq> Inr (Some y)"
    using assms(2,3) True d by (cases x; auto simp: fetch_poll_def Let_def split: option.splits)+
  have "where_is w' = where_is w1" using quiet_step [OF q(1)] law by blast
  moreover have "pending (where_is w) \<subseteq> pending (where_is w1)"
  proof (cases x)
    case (Inl e)
    with dequeue_clean [OF assms(1)] d show ?thesis by blast
  next
    case (Inr v)
    with q(2) law show ?thesis by (cases v) auto
  qed
  ultimately show ?thesis by simp
qed

lemma sys_step_clean:
  assumes "sys_step B where_is perform ret p ok s s'" "invar (s_world s)" "s_lost s = {}" "s_unseen s = {}"
  shows "s_lost s' = {} \<and> s_unseen s' = {}"
  using assms(1)
proof (cases rule: sys_step.cases)
  case (poll k f w')
  with assms fetch_poll_sees [OF assms(2) poll(3)] show ?thesis by (auto simp: note_poll_def Let_def)
next
  case (reap_fetch_fails e w')
  let ?w2 = "log_line Warn ''reaper failed'' [(''err'', LErr e)] w'"
  have "invar w'" using reap_law [OF assms(2) reap_fetch_fails(3)] by blast
  then have "where_is ?w2 = where_is w'" using quiet_step [OF quiet_log_line] by blast
  then have "leased (where_is (s_world s)) \<subseteq> leased (where_is ?w2)"
    using reap_clean [OF assms(2) reap_fetch_fails(3)] by (simp add: places_le_def)
  then have "leased (where_is (s_world s)) \<subseteq> whereabouts where_is (s\<lparr>s_world := ?w2\<rparr>)"
    by (auto simp: whereabouts_def held_def)
  then show ?thesis using assms(3,4) by (auto simp: reap_fetch_fails(1) note_reap_def)
qed (use assms(3,4) in \<open>auto simp: note_ack_def Let_def\<close>)

lemma sys_run_clean:
  assumes "sys_run B where_is perform ret p ok (sys_start p where_is w0) s" "invar w0"
    and "safe_handler invar where_is (run_handler perform p)" "safe_metrics invar where_is p"
    and "\<And>j. ok j \<Longrightarrow> admissible j"
  shows "sys_inv invar where_is {} w0 s \<and> s_lost s = {} \<and> s_unseen s = {}"
  using assms(1)
proof (induction rule: rtranclp_induct)
  case base
  from sys_run_keeps [OF rtranclp.rtrancl_refl assms(2-5)] show ?case by (auto simp: sys_start_def)
next
  case (step a b)
  with sys_step_keeps [OF step(2) _ assms(3-5)] sys_step_clean [OF step(2)] show ?case by (auto simp: sys_inv_world)
qed

end

section \<open>Shutdown\<close>

text \<open>
  In \<open>all_ended\<close> every goroutine \<open>Stop\<close> waits for has returned. \<open>drain_bound\<close>
  counts the steps the goroutines still have to make once the context is cancelled.
\<close>

definition all_ended :: "'b sys \<Rightarrow> bool" where
  "all_ended s \<longleftrightarrow> s_fetch s = FStop \<and> (\<forall>x \<in> set (s_workers s). x = WEnded) \<and> s_retry s = REnded \<and>
     s_reaper s = None \<and> s_metrics s = MEnded"

fun worker_bound :: "worker_state \<Rightarrow> nat" where
  "worker_bound (WRunning _ _ _ _) = 5"
| "worker_bound (WSettling _ _ _ _) = 4"
| "worker_bound (WStoring _ _) = 3"
| "worker_bound (WAcking _ _) = 2"
| "worker_bound WWaiting = 1"
| "worker_bound WEnded = 0"

fun fetch_bound :: "fetch \<Rightarrow> nat" where
  "fetch_bound (FHolding _ _ _) = 6"
| "fetch_bound (FRescue _) = 2"
| "fetch_bound (FLeave _) = 1"
| "fetch_bound (FAgain _) = 1"
| "fetch_bound FStop = 0"

fun retry_bound :: "retry_state \<Rightarrow> nat" where
  "retry_bound (RBatch rs) = 1 + 3 * length rs"
| "retry_bound (RTaken r rs) = 3 + 3 * length rs"
| "retry_bound (RRescue r e rs) = 2 + 3 * length rs"
| "retry_bound REnded = 0"

definition loop_bound :: "jobref list option \<Rightarrow> nat" where
  "loop_bound l = (case l of None \<Rightarrow> 0 | Some rs \<Rightarrow> Suc (length rs))"

fun metrics_bound :: "metrics_state \<Rightarrow> nat" where
  "metrics_bound MLoop = 1"
| "metrics_bound (MHandling ev) = 2"
| "metrics_bound MEnded = 0"

definition drain_bound :: "'b sys \<Rightarrow> nat" where
  "drain_bound s = fetch_bound (s_fetch s) + sum_list (map worker_bound (s_workers s)) +
     retry_bound (s_retry s) + loop_bound (s_reaper s) + metrics_bound (s_metrics s)"

text \<open>
  Steps that leave the goroutines of the processor where they are: a client, the rest of the process, a
  second call of \<open>Stop\<close>, a fetch of due or orphaned jobs that finds none.
\<close>

definition idle_step :: "'b sys \<Rightarrow> 'b sys \<Rightarrow> bool" where
  "idle_step s s' \<longleftrightarrow> s_fetch s' = s_fetch s \<and> s_workers s' = s_workers s \<and> s_retry s' = s_retry s \<and>
     s_reaper s' = s_reaper s \<and> s_metrics s' = s_metrics s"

text \<open>
  The one way back: a loop at its \<open>select\<close>, where the end of the context and a tick or an event are both
  ready, takes the tick or the event.
\<close>

definition tick_step :: "'b sys \<Rightarrow> 'b sys \<Rightarrow> bool" where
  "tick_step s s' \<longleftrightarrow> s_fetch s' = s_fetch s \<and> s_workers s' = s_workers s \<and>
     ((\<exists>rs. s_retry s = RBatch [] \<and> s_retry s' = RBatch rs) \<and> s_reaper s' = s_reaper s \<and> s_metrics s' = s_metrics s \<or>
      (\<exists>rs. s_reaper s = Some [] \<and> s_reaper s' = Some rs) \<and> s_retry s' = s_retry s \<and> s_metrics s' = s_metrics s \<or>
      (\<exists>ev. s_metrics s = MLoop \<and> ev \<in> set (events (s_world s)) \<and> s_metrics s' = MHandling ev) \<and>
        s_retry s' = s_retry s \<and> s_reaper s' = s_reaper s)"

text \<open>The handlers of the workers and of the metrics return.\<close>

definition handlers_return :: "'b returns \<Rightarrow> bool" where
  "handlers_return ret \<longleftrightarrow> (\<forall>ctx r w. job_returns ret ctx r w) \<and> (\<forall>ev w. event_returns ret ev w)"

lemma worker_bound_update:
  "i < length ws \<Longrightarrow> sum_list (map worker_bound (ws[i := x])) + worker_bound (ws ! i) =
     sum_list (map worker_bound ws) + worker_bound x"
  by (induction ws arbitrary: i) (auto simp: nth_Cons split: nat.splits)

lemma fetch_poll_cancelled: "cancelled w \<Longrightarrow> fetch_poll B p k w = Some (FStop, w)"
  by (simp add: fetch_poll_def)

lemmas drain_simps = drain_bound_def loop_bound_def note_sel

text \<open>A cancelled processor that has not ended can always make a step towards its end.\<close>

lemma drain_by:
  "sys_step B where_is perform ret p ok s s' \<Longrightarrow> drain_bound s' < drain_bound s \<Longrightarrow>
     \<exists>s'. sys_step B where_is perform ret p ok s s' \<and> drain_bound s' < drain_bound s"
  by blast

lemma drain_worker:
  assumes i: "i < length (s_workers s)" and "s_workers s ! i \<noteq> WEnded" "s_fetch s = FStop"
    and h: "never_panics (run_handler perform p)" "handlers_return ret"
  shows "\<exists>s'. sys_step B where_is perform ret p ok s s' \<and> drain_bound s' < drain_bound s"
proof (cases "s_workers s ! i")
  case WWaiting
  show ?thesis
    by (rule drain_by [OF sys_step.worker_end [OF i WWaiting assms(3)]])
      (use WWaiting worker_bound_update [OF i, of WEnded] in \<open>simp add: drain_simps\<close>)
next
  case (WRunning r q start ctx)
  obtain err w1 where run: "run_handler perform p ctx r (s_world s) = (Returned err, w1)"
    using never_panicsD [OF h(1)] by blast
  have ret: "job_returns ret ctx r (s_world s)" using h(2) by (simp add: handlers_return_def)
  show ?thesis
    by (rule drain_by [OF sys_step.handler [OF i WRunning ret run prod.collapse [symmetric]]])
      (use WRunning worker_bound_update [OF i, of "WSettling r q (fst (time_Now w1) - start) err"] in \<open>simp add: drain_simps\<close>)
next
  case (WSettling r q d err)
  show ?thesis
    by (rule drain_by [OF sys_step.settle [OF i WSettling]])
      (use WSettling worker_bound_update [OF i, of "case err of None \<Rightarrow> WAcking r ''ack failed'' | Some e \<Rightarrow> WStoring r e"]
       in \<open>auto simp: drain_simps split: option.splits\<close>)
next
  case (WStoring r e)
  obtain msg w' where st: "store_failure B p r e (s_world s) = (msg, w')" by fastforce
  show ?thesis
    by (rule drain_by [OF sys_step.store [OF i WStoring st]])
      (use WStoring worker_bound_update [OF i, of "WAcking r msg"] in \<open>simp add: drain_simps\<close>)
next
  case (WAcking r msg)
  show ?thesis
    by (rule drain_by [OF sys_step.ack [OF i WAcking]])
      (use WAcking worker_bound_update [OF i, of WWaiting] in \<open>simp add: drain_simps\<close>)
qed (use assms in simp)

lemma drain_retry:
  assumes "s_retry s \<noteq> REnded" "cancelled (s_world s)"
  shows "\<exists>s'. sys_step B where_is perform ret p ok s s' \<and> drain_bound s' < drain_bound s"
proof (cases "s_retry s" rule: retry_bound.cases)
  case (1 rs)
  show ?thesis
  proof (cases rs)
    case Nil
    show ?thesis by (rule drain_by [OF sys_step.retry_end [OF 1 [unfolded Nil] assms(2)]]) (use 1 Nil in \<open>simp add: drain_simps\<close>)
  next
    case (Cons r rs')
    obtain taken w' where t: "retry_take B p r (s_world s) = (taken, w')" by fastforce
    show ?thesis by (rule drain_by [OF sys_step.retry_take [OF 1 [unfolded Cons] t]]) (use 1 Cons in \<open>simp add: drain_simps\<close>)
  qed
next
  case (2 r rs)
  obtain res w' where en: "retry_enqueue B r (s_world s) = (res, w')" by fastforce
  show ?thesis
    by (rule drain_by [OF sys_step.retry_put [OF 2 en]]) (use 2 in \<open>auto simp: drain_simps split: option.splits\<close>)
next
  case (3 r e rs)
  show ?thesis by (rule drain_by [OF sys_step.retry_rescue [OF 3]]) (use 3 in \<open>simp add: drain_simps\<close>)
qed (use assms in simp)

lemma drain_reaper:
  assumes "s_reaper s = Some rs" "cancelled (s_world s)"
  shows "\<exists>s'. sys_step B where_is perform ret p ok s s' \<and> drain_bound s' < drain_bound s"
proof (cases rs)
  case Nil
  show ?thesis
    by (rule drain_by [OF sys_step.reap_end [OF assms(1) [unfolded Nil] assms(2)]]) (use assms(1) Nil in \<open>simp add: drain_simps\<close>)
next
  case (Cons r rs')
  show ?thesis
    by (rule drain_by [OF sys_step.reap_move [OF assms(1) [unfolded Cons]]]) (use assms(1) Cons in \<open>simp add: drain_simps\<close>)
qed

lemma drain_metrics:
  assumes "s_metrics s \<noteq> MEnded" "cancelled (s_world s)" "handlers_return ret"
  shows "\<exists>s'. sys_step B where_is perform ret p ok s s' \<and> drain_bound s' < drain_bound s"
proof (cases "s_metrics s")
  case MLoop
  show ?thesis by (rule drain_by [OF sys_step.metrics_end [OF MLoop assms(2)]]) (use MLoop in \<open>simp add: drain_simps\<close>)
next
  case (MHandling ev)
  have ret: "event_returns ret ev (s_world s)" using assms(3) by (simp add: handlers_return_def)
  show ?thesis by (rule drain_by [OF sys_step.metrics_run [OF MHandling ret]]) (use MHandling in \<open>simp add: drain_simps\<close>)
qed (use assms in simp)

lemma shutdown_enqueue_bound: "shutdown_enqueue B r q w = (f, w') \<Longrightarrow> fetch_bound f \<le> 2"
  by (auto simp: shutdown_enqueue_def Let_def split: prod.splits option.splits)

lemma drain_fetch:
  assumes "s_fetch s \<noteq> FStop" "cancelled (s_world s)"
  shows "\<exists>s'. sys_step B where_is perform ret p ok s s' \<and> drain_bound s' < drain_bound s"
proof (cases "s_fetch s")
  case (FAgain k)
  show ?thesis
    by (rule drain_by [OF sys_step.poll [OF FAgain fetch_poll_cancelled [OF assms(2)]]]) (use FAgain in \<open>simp add: drain_simps\<close>)
next
  case (FHolding r q k)
  let ?b = "WWaiting \<in> set (s_workers s)"
  obtain sent w1 where sel: "fetch_select ?b (s_world s) = (Some sent, w1)" "sent \<longrightarrow> ?b"
    using assms(2) by (cases ?b) (simp_all add: fetch_select_def select_choice_def)
  show ?thesis
  proof (cases sent)
    case True
    then obtain i where i: "i < length (s_workers s)" "s_workers s ! i = WWaiting"
      using sel(2) by (auto simp: in_set_conv_nth)
    have sel1: "fetch_select True (s_world s) = (Some True, w1)" using sel True by simp
    obtain start ctx w2 where st: "startJob p r q w1 = (start, ctx, w2)" by (cases "startJob p r q w1")
    show ?thesis
      by (rule drain_by [OF sys_step.hand_over [OF FHolding i sel1 st]])
        (use FHolding i worker_bound_update [OF i(1), of "WRunning r q start ctx"] in \<open>simp add: drain_simps\<close>)
  next
    case False
    have sel1: "fetch_select ?b (s_world s) = (Some False, w1)" using sel False by simp
    obtain f w2 where en: "shutdown_enqueue B r q w1 = (f, w2)" by fastforce
    show ?thesis
      by (rule drain_by [OF sys_step.shutdown [OF FHolding sel1 en]])
        (use FHolding shutdown_enqueue_bound [OF en] in \<open>simp add: drain_simps\<close>)
  qed
next
  case (FRescue r)
  show ?thesis by (rule drain_by [OF sys_step.rescue [OF FRescue]]) (use FRescue in \<open>simp add: drain_simps\<close>)
next
  case (FLeave r)
  show ?thesis by (rule drain_by [OF sys_step.leave [OF FLeave]]) (use FLeave in \<open>simp add: drain_simps\<close>)
qed (use assms in simp)

lemma drain_progress:
  assumes "cancelled (s_world s)" "\<not> all_ended s"
    and h: "never_panics (run_handler perform p)" "handlers_return ret"
  shows "\<exists>s'. sys_step B where_is perform ret p ok s s' \<and> drain_bound s' < drain_bound s"
proof -
  consider (fetch) "s_fetch s \<noteq> FStop"
    | (work) i where "i < length (s_workers s)" "s_workers s ! i \<noteq> WEnded" "s_fetch s = FStop"
    | (retry) "s_retry s \<noteq> REnded" | (reaper) rs where "s_reaper s = Some rs" | (metrics) "s_metrics s \<noteq> MEnded"
    using assms(2) unfolding all_ended_def by (cases "s_fetch s = FStop"; cases "s_reaper s") (auto simp: in_set_conv_nth)
  then show ?thesis
  proof cases
    case fetch
    then show ?thesis using assms(1) by (rule drain_fetch)
  next
    case (work i)
    then show ?thesis using h by (rule drain_worker)
  next
    case retry
    then show ?thesis using assms(1) by (rule drain_retry)
  next
    case reaper
    then show ?thesis using assms(1) by (rule drain_reaper)
  next
    case metrics
    then show ?thesis using assms(1) h(2) by (rule drain_metrics)
  qed
qed

text \<open>Every other step of a goroutine of a cancelled processor brings the end nearer, or takes a tick.\<close>

lemma drain_monotone:
  assumes "sys_step B where_is perform ret p ok s s'" "cancelled (s_world s)"
  shows "drain_bound s' < drain_bound s \<or> idle_step s s' \<or> tick_step s s'"
  using assms(1)
proof (cases rule: sys_step.cases)
  case (poll k f w')
  then show ?thesis using fetch_poll_cancelled [OF assms(2)] by (simp add: drain_simps)
next
  case (hand_over r q k i w1 start ctx w2)
  then show ?thesis using worker_bound_update [OF hand_over(3), of "WRunning r q start ctx"]
    by (simp add: drain_simps)
next
  case (shutdown r q k w1 f w2)
  then show ?thesis using shutdown_enqueue_bound [OF shutdown(4)] by (simp add: drain_simps)
next
  case (handler i r q start ctx err w1 stop w2)
  then show ?thesis using worker_bound_update [OF handler(2), of "WSettling r q (stop - start) err"]
    by (simp add: drain_simps)
next
  case (settle i r q d err)
  then show ?thesis
    using worker_bound_update [OF settle(2), of "case err of None \<Rightarrow> WAcking r ''ack failed'' | Some e \<Rightarrow> WStoring r e"]
    by (auto simp: drain_simps split: option.splits)
next
  case (store i r e msg w')
  then show ?thesis using worker_bound_update [OF store(2), of "WAcking r msg"] by (simp add: drain_simps)
next
  case (ack i r msg)
  then show ?thesis using worker_bound_update [OF ack(2), of WWaiting] by (simp add: drain_simps)
next
  case (worker_end i)
  then show ?thesis using worker_bound_update [OF worker_end(2), of WEnded] by (simp add: drain_simps)
next
  case (metrics_take ev evs)
  then show ?thesis by (simp add: tick_step_def)
qed (auto simp: drain_simps idle_step_def tick_step_def split: option.splits)

context broker_contract
begin

lemma stop_drains:
  assumes "invar (s_world s)" "\<forall>r \<in> sys_refs s. r < next_ref (s_world s)" "cancelled (s_world s)"
    and "safe_handler invar where_is (run_handler perform p)" "safe_metrics invar where_is p"
    and "\<And>j. ok j \<Longrightarrow> admissible j"
    and "never_panics (run_handler perform p)" "handlers_return ret"
  shows "\<exists>n s'. n \<le> drain_bound s \<and> (sys_step B where_is perform ret p ok ^^ n) s s' \<and> all_ended s'"
  using assms(1-3)
proof (induction "drain_bound s" arbitrary: s rule: less_induct)
  case less
  show ?case
  proof (cases "all_ended s")
    case True
    then show ?thesis by (intro exI [of _ 0] exI [of _ s]) simp
  next
    case False
    obtain s1 where s1: "sys_step B where_is perform ret p ok s s1" "drain_bound s1 < drain_bound s"
      using drain_progress [OF less.prems(3) False assms(7,8)] by blast
    have st: "invar (s_world s1)" "same_ids (s_world s) (s_world s1)" "\<forall>r \<in> sys_refs s1. r < next_ref (s_world s1)"
      using sys_step_ids [OF s1(1) less.prems(1,2) assms(4-6)] by blast+
    have "cancelled (s_world s1)" using st(2) less.prems(3) by (simp add: same_ids_def)
    from less.hyps [OF s1(2) st(1,3) this] obtain n s' where
      n: "n \<le> drain_bound s1" "(sys_step B where_is perform ret p ok ^^ n) s1 s'" "all_ended s'" by blast
    from relpowp_Suc_I2 [OF s1(1) n(2)] n s1(2) show ?thesis by (intro exI [of _ "Suc n"] exI [of _ s']) auto
  qed
qed

end

text \<open>One pass of the metrics loop, as \<open>metrics_turn\<close> has it, is a run of these steps.\<close>

lemma metrics_turn_steps:
  assumes "s_metrics s = MLoop" "metrics_turn p (s_world s) = Some (again, w')" "handlers_return ret"
  shows "sys_run B where_is perform ret p ok s (s\<lparr>s_world := w', s_metrics := (if again then MLoop else MEnded)\<rparr>)"
proof -
  let ?step = "sys_step B where_is perform ret p ok"
  obtain x w1 where sel: "metrics_select (s_world s) = (Some x, w1)"
    using assms(2) by (auto simp: metrics_turn_def split: prod.splits option.splits)
  show ?thesis
  proof (cases x)
    case None
    then have "again = False" "w' = w1" using assms(2) sel by (simp_all add: metrics_turn_def)
    have "quiet (s_world s) w1" "cancelled w1"
      using sel None
      by (auto simp: metrics_select_def Let_def select_choice_def quiet_def same_ids_def split: if_splits list.splits)
    then have "?step s (s\<lparr>s_world := w1\<rparr>)" "?step (s\<lparr>s_world := w1\<rparr>) (s\<lparr>s_world := w1, s_metrics := MEnded\<rparr>)"
      using sys_step.env [of s w1] sys_step.metrics_end [of "s\<lparr>s_world := w1\<rparr>"] assms(1) by simp_all
    then show ?thesis using \<open>again = False\<close> \<open>w' = w1\<close> by (simp add: converse_rtranclp_into_rtranclp r_into_rtranclp)
  next
    case (Some ev)
    then have eq: "again" "w' = metrics_handle p ev w1" using assms(2) sel by (simp_all add: metrics_turn_def)
    obtain w0 evs where w0: "quiet (s_world s) w0" "events w0 = ev # evs" "w1 = w0\<lparr>events := evs\<rparr>"
      using sel Some that [of "snd (select_choice (s_world s))"] that [of "s_world s"]
      by (auto simp: metrics_select_def Let_def select_choice_def quiet_def same_ids_def split: if_splits list.splits)
    let ?s1 = "s\<lparr>s_world := w0\<rparr>" and ?s2 = "s\<lparr>s_world := w1, s_metrics := MHandling ev\<rparr>"
    have "?step s ?s1" by (rule sys_step.env [OF w0(1)])
    moreover have "?step ?s1 ?s2" using sys_step.metrics_take [of ?s1 ev evs] assms(1) w0 by simp
    moreover have "?step ?s2 (s\<lparr>s_world := metrics_handle p ev w1, s_metrics := MLoop\<rparr>)"
      using sys_step.metrics_run [of ?s2 ev] assms(3) by (simp add: handlers_return_def)
    ultimately show ?thesis using eq by (simp add: converse_rtranclp_into_rtranclp r_into_rtranclp)
  qed
qed

section \<open>Progress of retries\<close>

definition due_retries :: "mem_world \<Rightarrow> jobref list" where
  "due_retries w = take 100 (map re_Job (filter (\<lambda>e. RetryAt e \<le> clock w 0) (retry (brk w))))"

abbreviation served :: "'b Processor \<Rightarrow> 'b world \<Rightarrow> jobref \<Rightarrow> bool" where
  "served p w r \<equiv> Queue (heap w r) \<in> set (p_queueSet p)"

text \<open>The identifiers of the jobs in the retry set.\<close>

definition retry_ids :: "mem_world \<Rightarrow> string list" where
  "retry_ids w = map (\<lambda>e. JID (heap w (re_Job e))) (retry (brk w))"

lemma remove_first_filter:
  "distinct (map f xs) \<Longrightarrow> remove_first (\<lambda>e. f e = v) xs = filter (\<lambda>e. f e \<noteq> v) xs"
proof (induction xs)
  case (Cons x xs)
  show ?case
  proof (cases "f x = v")
    case True
    then have "\<forall>e \<in> set xs. f e \<noteq> v" using Cons.prems by (metis distinct.simps(2) image_eqI list.map(2) set_map)
    then have "filter (\<lambda>e. f e \<noteq> v) xs = xs" by (simp add: filter_id_conv)
    with True show ?thesis by simp
  qed (use Cons in simp)
qed simp

lemma retry_one_moves:
  assumes "mem_accepts w" and w': "w' = retry_one memB p r w"
  shows "mem_accepts w' \<and> (\<forall>x. Queue (heap w' x) = Queue (heap w x) \<and> JID (heap w' x) = JID (heap w x)) \<and>
    queue_of (brk w') q = queue_of (brk w) q @
      (if q \<in> set (p_queueSet p) then filter (\<lambda>r. Queue (heap w r) = q) [r] else []) \<and>
    retry (brk w') = (if served p w r
      then remove_first (\<lambda>e. JID (heap w (re_Job e)) = JID (heap w r)) (retry (brk w)) else retry (brk w))"
proof (cases "served p w r")
  case True
  let ?m = "(brk w)\<lparr>retry := remove_first (\<lambda>e. JID (heap w (re_Job e)) = JID (heap w r)) (retry (brk w))\<rparr>"
  have "w' = (upd_job r (\<lambda>j. j\<lparr>State := JobStatePending\<rparr>) w)
      \<lparr>brk := set_queue (Queue (heap w r)) (queue_of ?m (Queue (heap w r)) @ [r]) ?m\<rparr>"
    using assms True
    by (simp add: retry_one_def memB_def mem_RemoveFromRetry_def mem_Enqueue_def mem_accepts_def upd_job_def Let_def)
  moreover have "queue_of ?m x = queue_of (brk w) x" for x by (simp add: queue_of_def)
  ultimately show ?thesis using True assms(1) by (auto simp: mem_accepts_def)
next
  case False
  then have "w' = log_line Warn ''retry job has unknown queue, skipping''
      (jid_field w r @ [(''queue'', LStr (Queue (heap w r)))]) w"
    by (simp add: w' retry_one_def)
  with False assms(1) show ?thesis by (auto simp: mem_accepts_def)
qed

lemma retry_fold_moves:
  assumes "mem_accepts w" and "distinct (retry_ids w)" and "w' = fold (retry_one memB p) rs w"
  shows "queue_of (brk w') q = queue_of (brk w) q @
      (if q \<in> set (p_queueSet p) then filter (\<lambda>r. Queue (heap w r) = q) rs else []) \<and>
    retry (brk w') = filter (\<lambda>e. JID (heap w (re_Job e)) \<notin> (\<lambda>r. JID (heap w r)) ` {r \<in> set rs. served p w r}) (retry (brk w))"
  using assms
proof (induction rs arbitrary: w)
  case (Cons r rs)
  let ?w1 = "retry_one memB p r w" and ?S = "\<lambda>rs. (\<lambda>r. JID (heap w r)) ` {r \<in> set rs. served p w r}"
  note one = retry_one_moves [OF Cons.prems(1) refl, of p r q]
  have ret: "retry (brk ?w1) = (if served p w r
      then filter (\<lambda>e. JID (heap w (re_Job e)) \<noteq> JID (heap w r)) (retry (brk w)) else retry (brk w))"
    using one remove_first_filter [OF Cons.prems(2) [unfolded retry_ids_def], of "JID (heap w r)"] by simp
  have "distinct (retry_ids ?w1)"
    using one Cons.prems(2) distinct_remove_first [of "\<lambda>e. JID (heap w (re_Job e))" "retry (brk w)"] by (simp add: retry_ids_def)
  then have IH: "queue_of (brk w') q = queue_of (brk ?w1) q @
        (if q \<in> set (p_queueSet p) then filter (\<lambda>r. Queue (heap w r) = q) rs else [])"
      "retry (brk w') = filter (\<lambda>e. JID (heap w (re_Job e)) \<notin> ?S rs) (retry (brk ?w1))"
    using Cons.IH [of ?w1] one Cons.prems(3) by simp_all
  have S: "?S (r # rs) = (if served p w r then insert (JID (heap w r)) (?S rs) else ?S rs)" by auto
  have "retry (brk w') = filter (\<lambda>e. JID (heap w (re_Job e)) \<notin> ?S (r # rs)) (retry (brk w))"
    unfolding IH(2) ret S by (auto intro!: filter_cong)
  then show ?case using one IH(1) by simp
qed simp

section \<open>Concrete runs\<close>

abbreviation all_return :: "'b returns" where
  "all_return \<equiv> \<lparr>job_returns = (\<lambda>_ _ _. True), event_returns = (\<lambda>_ _. True)\<rparr>"

text \<open>The reaper takes an expired lease in hand, then \<open>Stop\<close> is called.\<close>

definition demo_reap_stop :: "InMemoryBroker sys" where
  "demo_reap_stop = (sys_start demo_processor mem_places demo_orphan)
     \<lparr>s_reaper := Some [0], s_world := Stop_begin (snd (mem_ReapOrphanedJobs 0 demo_orphan))\<rparr>"

lemma demo_reap_stop_run:
  "sys_run memB mem_places fails all_return demo_processor (\<lambda>_. True)
     (sys_start demo_processor mem_places demo_orphan) demo_reap_stop"
  "cancelled (s_world demo_reap_stop)"
proof -
  let ?s = "sys_start demo_processor mem_places demo_orphan"
  let ?w = "snd (mem_ReapOrphanedJobs 0 demo_orphan)"
  let ?step = "sys_step memB mem_places fails all_return demo_processor (\<lambda>_. True)"
  have reap: "bk_ReapOrphanedJobs memB 0 (s_world ?s) = (Inr [0], ?w)" "s_reaper ?s = Some []"
    by (simp_all add: sys_start_def memB_def mem_ReapOrphanedJobs_def demo_orphan_def Let_def case_prod_beta)
  have "?step ?s (?s\<lparr>s_world := ?w, s_reaper := Some [0], s_unseen := s_unseen ?s - ids ?w (set [0])\<rparr>)"
    by (rule sys_step.reap_fetch [OF reap(2,1)])
  then have "?step ?s (?s\<lparr>s_world := ?w, s_reaper := Some [0]\<rparr>)" by (simp add: sys_start_def)
  moreover have "?step (?s\<lparr>s_world := ?w, s_reaper := Some [0]\<rparr>) demo_reap_stop"
    using sys_step.stop [of memB mem_places fails all_return demo_processor "\<lambda>_. True" "?s\<lparr>s_world := ?w, s_reaper := Some [0]\<rparr>"]
    by (simp add: demo_reap_stop_def)
  ultimately show "?step\<^sup>*\<^sup>* ?s demo_reap_stop" by (rule converse_rtranclp_into_rtranclp [OF _ r_into_rtranclp])
  show "cancelled (s_world demo_reap_stop)" by (simp add: demo_reap_stop_def Stop_begin_def)
qed

text \<open>
  On the simulated Redis the reaper takes an expired lease and enqueues the job again, but the reply to
  the second command is lost.
\<close>

abbreviation demo_rB :: "sim RedisBroker Broker" where
  "demo_rB \<equiv> redisB simR sim_marshal sim_unmarshal"

definition demo_rmoved :: "sim RedisBroker sys" where
  "demo_rmoved = (sys_start demo_processor (redis_where sim_data sim_unmarshal) demo_rleased)
     \<lparr>s_world := reap_one demo_rB demo_processor 1 (snd (redis_ReapOrphanedJobs simR sim_unmarshal 0 demo_rleased))\<rparr>"

lemma demo_rreap: "fst (redis_ReapOrphanedJobs simR sim_unmarshal 0 demo_rleased) = Inr [1]"
  by (simp add: redis_ReapOrphanedJobs_def reapScript_def zrange_def sim_eval sim_demo Unix_def)

lemma demo_rmoved_run:
  "sys_run demo_rB (redis_where sim_data sim_unmarshal) fails all_return demo_processor (redis_admissible (\<lambda>_. True))
     (sys_start demo_processor (redis_where sim_data sim_unmarshal) demo_rleased) demo_rmoved"
proof -
  let ?s = "sys_start demo_processor (redis_where sim_data sim_unmarshal) demo_rleased"
  let ?w = "snd (redis_ReapOrphanedJobs simR sim_unmarshal 0 demo_rleased)"
  let ?step = "sys_step demo_rB (redis_where sim_data sim_unmarshal) fails all_return demo_processor (redis_admissible (\<lambda>_. True))"
  let ?s1 = "?s\<lparr>s_world := ?w, s_reaper := Some [1], s_unseen := s_unseen ?s - ids ?w (set [1])\<rparr>"
  have reap: "bk_ReapOrphanedJobs demo_rB 0 (s_world ?s) = (Inr [1], ?w)" "s_reaper ?s = Some []"
    using demo_rreap by (simp_all add: sys_start_def redisB_def prod_eq_iff)
  have "?step ?s ?s1" by (rule sys_step.reap_fetch [OF reap(2,1)])
  moreover have "?step ?s1 (?s1\<lparr>s_world := reap_one demo_rB demo_processor 1 (s_world ?s1), s_reaper := Some []\<rparr>)"
    by (rule sys_step.reap_move) simp
  then have "?step ?s1 demo_rmoved" by (simp add: demo_rmoved_def sys_start_def)
  ultimately show ?thesis by (rule converse_rtranclp_into_rtranclp [OF _ r_into_rtranclp])
qed

text \<open>Two due retries and one that is not due, one of the due jobs of a queue that is not served.\<close>

definition demo_due :: mem_world where
  "demo_due = start_world (NewInMemoryBroker\<lparr>retry :=
     [\<lparr>re_Job = 0, RetryAt = 0\<rparr>, \<lparr>re_Job = 1, RetryAt = 5\<rparr>, \<lparr>re_Job = 3, RetryAt = 0\<rparr>, \<lparr>re_Job = 2, RetryAt = 0\<rparr>]\<rparr>)
     [demo_job ''a'', demo_job ''b'', demo_job ''c'', (demo_job ''d'')\<lparr>Queue := ''other''\<rparr>]"

lemma demo_chain:
  "\<forall>m \<in> set (middlewares (p_handler (demo_processor :: 'b Processor))). builtin_middleware m"
  "RecoveryMiddleware \<in> set (middlewares (p_handler (demo_processor :: 'b Processor)))"
  by (auto simp: demo_processor_handler builtin_middleware_def)

lemma fails_safe: "safe_perform invar where_is fails"
  by (simp add: safe_perform_def)

lemma demo_metrics: "safe_metrics invar where_is demo_processor"
  by (simp add: safe_metrics_def metrics_handle_def demo_processor_def NewProcessor_def Let_def)

section \<open>Properties\<close>

lemma sys_step_accepted: "sys_step B where_is perform ret p ok s s' \<Longrightarrow> s_accepted s \<subseteq> s_accepted s'"
  by (induction rule: sys_step.induct) auto

lemma sys_run_accepted: "sys_run B where_is perform ret p ok s s' \<Longrightarrow> s_accepted s \<subseteq> s_accepted s'"
  by (induction rule: rtranclp_induct) (use sys_step_accepted in blast)+

text \<open>
  C1: no job disappears silently from a running system on the in-memory broker. Let the fetcher, the
  workers, the retry loop, the reaper, the metrics loop, \<open>Stop\<close> and any number of clients interleave in
  any way, one broker call at a time, from any state of the broker: every job the broker held at the start
  and every job a client was told is enqueued is still with the broker, or its handler succeeded, or the
  retry loop or the reaper has it in hand, or it is in flight after an earlier run of it acknowledged it, or
  a log line reports under its identifier that it may be lost.
\<close>

theorem system_no_silent_loss:
  assumes "mem_invar w0" "sys_run memB mem_places perform ret p (\<lambda>_. True) (sys_start p mem_places w0) s"
    and "safe_perform mem_invar mem_places perform" "safe_metrics mem_invar mem_places p"
    and "\<forall>m \<in> set (middlewares (p_handler p)). builtin_middleware m"
  shows "mem_invar (s_world s) \<and> held (mem_places w0) \<subseteq> s_accepted s \<and>
    s_accepted s \<subseteq> whereabouts mem_places s \<union> reported w0 (s_world s)"
proof -
  have safe: "safe_handler mem_invar mem_places (run_handler perform p)"
    using assms(3,5) by (rule mem.safe_run_handler)
  have "held (mem_places w0) \<subseteq> s_accepted s" using sys_run_accepted [OF assms(2)] by (simp add: sys_start_def)
  with mem.sys_run_clean [OF assms(2,1) safe assms(4)] show ?thesis by (auto simp: sys_inv_def)
qed

theorem system_no_silent_loss_witness:
  "''a'' \<in> whereabouts mem_places demo_reap_stop \<union> reported demo_orphan (s_world demo_reap_stop)"
  using system_no_silent_loss [OF demo_orphan_inv(1) demo_reap_stop_run(1) fails_safe demo_metrics demo_chain(1)]
    demo_orphan_inv(2)
  by blast



text \<open>
  C8: \<open>Stop\<close> ends. Suppose the handlers of the jobs and of the metrics return. From every state of a
  running system on the in-memory broker in which the context is cancelled, all goroutines \<open>Stop\<close> waits for,
  the metrics loop among them, can return within \<open>drain_bound\<close> steps, and when they have, every accepted
  job is with the broker, done, or reported. Each step from such a state brings the end nearer, or leaves the
  goroutines where they are, or is the \<open>tick_step\<close> of a loop whose \<open>select\<close> had a tick or an event ready
  besides the end of the context and took it; the context stays cancelled.
\<close>

theorem stop_completes:
  assumes "mem_invar w0" "sys_run memB mem_places perform ret p (\<lambda>_. True) (sys_start p mem_places w0) s"
    and "cancelled (s_world s)" "handlers_return ret"
    and "safe_perform mem_invar mem_places perform" "safe_metrics mem_invar mem_places p"
    and "\<forall>m \<in> set (middlewares (p_handler p)). builtin_middleware m"
    and "RecoveryMiddleware \<in> set (middlewares (p_handler p))"
  shows "(\<exists>n s'. n \<le> drain_bound s \<and> (sys_step memB mem_places perform ret p (\<lambda>_. True) ^^ n) s s' \<and> all_ended s' \<and>
      s_accepted s \<subseteq> held (mem_places (s_world s')) \<union> s_done s' \<union> reported w0 (s_world s')) \<and>
    (\<forall>s1. sys_step memB mem_places perform ret p (\<lambda>_. True) s s1 \<longrightarrow>
      cancelled (s_world s1) \<and> (drain_bound s1 < drain_bound s \<or> idle_step s s1 \<or> tick_step s s1))"
proof -
  let ?step = "sys_step memB mem_places perform ret p (\<lambda>_. True)"
  have safe: "safe_handler mem_invar mem_places (run_handler perform p)"
    using assms(5,7) by (rule mem.safe_run_handler)
  have np: "never_panics (run_handler perform p)"
    unfolding run_handler_def using assms(7,8) by (rule never_panics_Wrap)
  have inv: "sys_inv mem_invar mem_places {} w0 s" by (rule mem.sys_run_keeps [OF assms(2,1) safe assms(6)]) simp
  then have i: "mem_invar (s_world s)" "\<forall>r \<in> sys_refs s. r < next_ref (s_world s)" by (auto simp: sys_inv_def)
  from mem.stop_drains [OF i assms(3) safe assms(6) _ np assms(4)] obtain n s' where
    n: "n \<le> drain_bound s" "(?step ^^ n) s s'" "all_ended s'" by blast
  have run: "sys_run memB mem_places perform ret p (\<lambda>_. True) s s'" using n(2) by (rule relpowp_imp_rtranclp)
  have "sys_inv mem_invar mem_places {} w0 s' \<and> s_lost s' = {} \<and> s_unseen s' = {}"
    by (rule mem.sys_run_clean [OF rtranclp_trans [OF assms(2) run] assms(1) safe assms(6)]) simp
  moreover have "whereabouts mem_places s' = held (mem_places (s_world s')) \<union> s_done s'"
  proof -
    have "worker_flight x = {}" if "x \<in> set (s_workers s')" for x using n(3) that by (auto simp: all_ended_def)
    then have "flight_refs s' = {}" "hand_refs s' = {}" using n(3) by (auto simp: sys_parts all_ended_def)
    then show ?thesis by (simp add: whereabouts_def)
  qed
  ultimately have acc: "s_accepted s \<subseteq> held (mem_places (s_world s')) \<union> s_done s' \<union> reported w0 (s_world s')"
    using sys_run_accepted [OF run] by (auto simp: sys_inv_def)
  have "cancelled (s_world s1)" if "?step s s1" for s1
    using mem.sys_step_ids [OF that i safe assms(6)] assms(3) by (simp add: same_ids_def)
  with n acc drain_monotone assms(3) show ?thesis by blast
qed

theorem stop_completes_witness:
  "\<exists>n s'. n \<le> drain_bound demo_reap_stop \<and>
     (sys_step memB mem_places fails all_return demo_processor (\<lambda>_. True) ^^ n) demo_reap_stop s' \<and> all_ended s' \<and>
     ''a'' \<in> held (mem_places (s_world s')) \<union> s_done s' \<union> reported demo_orphan (s_world s')"
proof -
  have "''a'' \<in> s_accepted demo_reap_stop" using demo_orphan_inv(2) by (simp add: demo_reap_stop_def sys_start_def)
  moreover have "handlers_return (all_return :: InMemoryBroker returns)" by (simp add: handlers_return_def)
  ultimately show ?thesis
    using stop_completes [OF demo_orphan_inv(1) demo_reap_stop_run _ fails_safe demo_metrics demo_chain] by blast
qed

text \<open>
  C9: a due retry is not left behind. On an in-memory broker that accepts jobs and holds no job twice in the
  retry set, one turn of the retry loop takes those of the first 100 due jobs whose queue the processor serves
  out of the retry set and appends them to their queues, in the order they were scheduled; everything else
  stays in the retry set, and no other queue changes.
\<close>

theorem retry_tick_moves_due:
  assumes "mem_accepts w" "distinct (retry_ids w)"
  shows "queue_of (brk (retry_tick memB p w)) q = queue_of (brk w) q @
    (if q \<in> set (p_queueSet p) then filter (\<lambda>r. Queue (heap w r) = q) (due_retries w) else []) \<and>
    retry (brk (retry_tick memB p w)) =
      filter (\<lambda>e. \<not> (re_Job e \<in> set (due_retries w) \<and> served p w (re_Job e))) (retry (brk w))"
proof -
  let ?w1 = "snd (time_Now w)" and ?j = "\<lambda>e. JID (heap w (re_Job e))"
  have "mem_GetRetryJobs 100 w = (Inr (due_retries w), ?w1)"
    using due_jobs_eq [of "[]" 100 "clock w 0" "retry (brk w)"]
    by (simp add: mem_GetRetryJobs_def due_retries_def time_Now_def)
  then have tick: "retry_tick memB p w = fold (retry_one memB p) (due_retries w) ?w1"
    by (simp add: retry_tick_def memB_def)
  have w1: "mem_accepts ?w1" "distinct (retry_ids ?w1)" using assms by (simp_all add: mem_accepts_def retry_ids_def)
  have due: "set (due_retries w) \<subseteq> re_Job ` set (retry (brk w))"
    using set_take_subset [of 100 "map re_Job (filter (\<lambda>e. RetryAt e \<le> clock w 0) (retry (brk w)))"]
    by (auto simp: due_retries_def)
  have "?j e \<in> (\<lambda>r. JID (heap w r)) ` {r \<in> set (due_retries w). served p w r} \<longleftrightarrow>
      re_Job e \<in> set (due_retries w) \<and> served p w (re_Job e)" if "e \<in> set (retry (brk w))" for e
  proof
    assume "?j e \<in> (\<lambda>r. JID (heap w r)) ` {r \<in> set (due_retries w). served p w r}"
    then obtain e' where e': "e' \<in> set (retry (brk w))" "?j e = ?j e'" "re_Job e' \<in> set (due_retries w)" "served p w (re_Job e')"
      using due by auto
    have "e = e'" using assms(2) that e'(1,2) by (auto simp: retry_ids_def distinct_map dest: inj_onD)
    with e' show "re_Job e \<in> set (due_retries w) \<and> served p w (re_Job e)" by simp
  qed blast
  then have "filter (\<lambda>e. ?j e \<notin> (\<lambda>r. JID (heap w r)) ` {r \<in> set (due_retries w). served p w r}) (retry (brk w)) =
      filter (\<lambda>e. \<not> (re_Job e \<in> set (due_retries w) \<and> served p w (re_Job e))) (retry (brk w))"
    by (intro filter_cong) auto
  with retry_fold_moves [OF w1 refl, of p "due_retries w" q] show ?thesis by (simp add: tick)
qed

theorem retry_tick_moves_due_witness:
  "mem_accepts demo_due \<and> queue_of (brk (retry_tick memB demo_processor demo_due)) ''default'' = [0, 2] \<and>
   map re_Job (retry (brk (retry_tick memB demo_processor demo_due))) = [1, 3]"
proof -
  have "mem_accepts demo_due" by (simp add: demo_due_def mem_accepts_def NewInMemoryBroker_def)
  moreover have "distinct (retry_ids demo_due)" by (simp add: demo_due_def retry_ids_def)
  ultimately show ?thesis using retry_tick_moves_due [of demo_due demo_processor "''default''"]
    by (simp add: demo_due_def due_retries_def queue_of_def NewInMemoryBroker_def demo_processor_handler)
qed

text \<open>
  The reaper and \<open>Stop\<close>: it enqueues with the processor's context, so once that is cancelled a job it
  has taken out of the leases goes nowhere; the log line is all that is left of it.
\<close>

lemma reaper_loses_when_stopping:
  assumes "cancelled w" "Queue (heap w r) \<in> set (p_queueSet p)" "\<not> is_done (brk w)"
  shows "brk (reap_one memB p r w) = brk w \<and> JID (heap w r) \<in> reported w (reap_one memB p r w)"
  using assms
  by (simp add: reap_one_def memB_def mem_Enqueue_def log_err_def reported_def loss_line_def loss_messages_def)

text \<open>
  The term \<open>s_lost\<close> is needed: the server executes the reap but its reply is lost, and the job is gone
  with no line in the log that names it.
\<close>

definition demo_rlossy :: "sim redis_world" where
  "demo_rlossy = sim_world (zadd redisProcessingKey 0 demo_bytes empty_data) (\<lambda>_. NoReply) []"

lemma failed_reap_loses:
  "\<exists>s. sys_step demo_rB (redis_where sim_data sim_unmarshal) fails all_return demo_processor (redis_admissible (\<lambda>_. True))
     (sys_start demo_processor (redis_where sim_data sim_unmarshal) demo_rlossy) s \<and>
     s_accepted s = {''a''} \<and> s_lost s = {''a''} \<and> reported demo_rlossy (s_world s) = {}"
proof -
  let ?s = "sys_start demo_processor (redis_where sim_data sim_unmarshal) demo_rlossy"
  obtain e w' where reap: "redis_ReapOrphanedJobs simR sim_unmarshal 0 demo_rlossy = (Inl e, w')"
    and w': "redis_places sim_unmarshal (sim_data (rb_client (brk w'))) = \<lparr>pending = {}, leased = {}, retrying = {}, buried = {}\<rparr>"
      "logs w' = []"
    by (simp add: redis_ReapOrphanedJobs_def reapScript_def zrange_def sim_eval sim_demo demo_rlossy_def Unix_def
        redis_places_def ids_of_def members_def queued_def)
  have b: "bk_ReapOrphanedJobs demo_rB 0 (s_world ?s) = (Inl e, w')" "s_reaper ?s = Some []"
    using reap by (simp_all add: sys_start_def redisB_def)
  have l: "redis_places sim_unmarshal (sim_data (rb_client (brk demo_rlossy))) = \<lparr>pending = {}, leased = {''a''}, retrying = {}, buried = {}\<rparr>"
    "logs demo_rlossy = []"
    by (simp_all add: redis_places_def ids_of_def members_def queued_def sim_demo demo_rlossy_def)
  show ?thesis
    by (intro exI conjI, rule sys_step.reap_fetch_fails [OF b(2,1)])
      (simp_all add: sys_start_def note_reap_def whereabouts_def sys_parts held_def redis_where_def l w' reported_def
        loss_line_def loss_messages_def)
qed

end
