(* ===== verification/Spec2Isabelle.thy ===== *)
theory Spec2Isabelle
  imports Breaker Payload World Broker_Interface Memory_Broker Config Middleware Processor Job_Safety
    Client Queue_Stats Engine Accounting Redis_Broker Redis_Sim Redis_Setup Redis_Props Api System
begin

text \<open>
  A verification library for crank, a background job processor for Go. This header says which
  theory models which file of the repository, what the lemmas show, and what is left out.

  \<^bold>\<open>The program.\<close> A client puts jobs into a broker. An engine owns a processor, which
  fetches jobs from the broker's queues under a lease, runs each through a chain of middlewares
  (panic recovery, logging, circuit breaker, then the worker registered for the job's class),
  and records the outcome in the broker: success, a later retry, or the dead set. A retry loop
  moves due retries back to their queues and a reaper returns jobs whose lease has expired. The
  broker is Redis or, in tests, memory.

  \<^bold>\<open>Foundations.\<close>
  \<^item> \<open>Crank_Prelude\<close>: time and 64-bit arithmetic, Go values, the errors of the program with
    \<open>errors.Is\<close>, strings, and list lemmas shared by the components.
  \<^item> \<open>World\<close>: the shared state (a heap of jobs reached through references, the broker, the
    breakers, logs and events) and the nondeterminism of Go's runtime as streams: the clock,
    \<open>select\<close>, the order of \<open>range\<close> over a map, fresh identifiers. \<open>same_ids\<close> is what
    every step keeps: the identity of the jobs, the log so far, a cancelled context.
  \<^item> \<open>Payload\<close> models \<^verbatim>\<open>internal/payload\<close>: the job record with its constructors, the
    validators and the redactors.
  \<^item> \<open>Breaker\<close> models \<^verbatim>\<open>internal/queue/breaker.go\<close>: the state of the circuit breaker, the
    lookup with its three eviction passes, \<open>Allow\<close>, \<open>RecordSuccess\<close>, \<open>RecordFailure\<close> and
    \<open>IsOpen\<close>. A sequence of calls keeps the invariant; below capacity the breaker refines an
    independent automaton per class; the circuit trips at the threshold and not before; one
    probe is let through; eviction chooses its victim as intended.

  \<^bold>\<open>Brokers.\<close>
  \<^item> \<open>Broker_Interface\<close> models \<^verbatim>\<open>internal/broker/broker.go\<close>: the interface as a method table
    and its contract as the locales \<open>broker_contract\<close>, \<open>reliable_broker\<close> and
    \<open>accepting_broker\<close>, stated over the abstract places of a job (pending, leased, retrying,
    buried). A call that reports an error may or may not have had its effect; a \<open>Dequeue\<close> that does moves
    its job from the queue to the leases.
  \<^item> \<open>Memory_Broker\<close> models \<^verbatim>\<open>internal/broker/memory.go\<close>, with the interpretation of
    the locales. Queues are first in, first out; \<open>Dequeue\<close> returns; leases protect a job for five
    minutes; the retry set returns the due jobs; \<open>Ack\<close> is exact.
  \<^item> \<open>Redis_Broker\<close> models the methods of \<^verbatim>\<open>internal/broker/redis_broker.go\<close> over a record of
    client commands, with the two Lua scripts. What the code relies on are the locales
    \<open>redis_server\<close> (the documented meaning of the commands; a command is executed at most once; a
    call that reports an error was executed or not; no other client writes the keys) and
    \<open>job_codec\<close> (JSON keeps identifiers that are UTF-8). With them the broker meets
    \<open>broker_contract\<close>. \<open>decoded_codec\<close> adds what the exact removal of a retry rests on: a job decoded from
    JSON, its counters and state changed within their limits, is encoded to a text that decodes to it again.
  \<^item> \<open>Redis_Sim\<close>: a server with faults and a codec that satisfy these locales; the witnesses run
    on them.
  \<^item> \<open>Redis_Setup\<close>: the constructors, with the checks on the URL and TLS, and exactly how they fail. The URL
    is rendered with its password replaced; the error of the URL parser is passed on as it is.
  \<^item> \<open>Redis_Props\<close>: dequeue with its lease, acknowledge, retry and reap on Redis, exactly; \<open>Dequeue\<close> returns;
    the processor on Redis. The round trip of a retry is about payloads this program stored: a payload written
    by another program in another JSON form is not removed by \<open>RemoveFromRetry\<close>.

  \<^bold>\<open>Processing.\<close>
  \<^item> \<open>Config\<close> models \<^verbatim>\<open>internal/config/config.go\<close>: \<open>Load\<close> with its limits and, exactly, the paths it
    accepts; a relative link that leads out of the working directory is among them.
  \<^item> \<open>Middleware\<close> models \<^verbatim>\<open>internal/queue/middleware.go\<close> and \<^verbatim>\<open>worker.go\<close>.
  \<^item> \<open>Processor\<close> models \<^verbatim>\<open>internal/queue/processor.go\<close>: construction, execution, outcome
    handling, one turn of each loop, lifecycle and settings. A handler with several broker calls is there
    whole and call by call, with a lemma that the two agree.
  \<^item> \<open>Job_Safety\<close>: the lemmas of the processor inside the broker contract (no job is lost by a
    run, a retry turn or a reaper turn when the broker is reliable) and their instances for the
    in-memory broker; the exact effect of a run; the events of a run; the polling order.
  \<^item> \<open>Accounting\<close>: the same for every broker of the contract, with calls that fail: a job that is no
    longer held is \<open>reported\<close> by a log line with its identifier, or it was leased when a reap failed: the
    line of a failed reap names no job.
  \<^item> \<open>System\<close>: the goroutines of a running processor and its clients as the step relation
    \<open>sys_step\<close>. Every accepted job stays accounted for, whatever the interleaving, on memory; on Redis up to
    \<open>s_lost\<close>, the jobs that failed calls took away unnamed (\<open>failed_reap_loses\<close> shows that there are such). After
    \<open>Stop\<close>, if the handlers return, all goroutines it waits for can end within \<open>drain_bound\<close> steps; a step
    that does not bring that nearer leaves the goroutines as they are or is a tick or an event that was
    ready beside the cancelled context. A turn of the retry loop moves the due jobs.

  \<^bold>\<open>Interface to the embedding program.\<close>
  \<^item> \<open>Client\<close> models \<^verbatim>\<open>internal/client/client.go\<close>: what a reported and a rejected enqueue did.
  \<^item> \<open>Queue_Stats\<close> models \<^verbatim>\<open>internal/queue/queue.go\<close> and \<^verbatim>\<open>metrics.go\<close>.
  \<^item> \<open>Engine\<close> models \<^verbatim>\<open>engine.go\<close>: registry, settings, lifecycle, health.
  \<^item> \<open>Api\<close> models \<^verbatim>\<open>crank.go\<close>, \<^verbatim>\<open>options.go\<close>, \<^verbatim>\<open>internal/broker/factory.go\<close> and
    \<^verbatim>\<open>testharness.go\<close>: every set of options gives a usable configuration; an engine asked for TLS gets
    TLS.

  \<^bold>\<open>Conventions.\<close> A method that holds a mutex from its first to its last access is one
  function on the state. Errors are values of the datatype \<open>error\<close>; a panic is the outcome
  \<open>Panicked\<close>. Durations and times are integers in nanoseconds; arithmetic on Go integers wraps at
  64 bits through \<open>wrap64\<close> where the source computes with them; \<open>float64\<close> is modelled where a
  timeout goes through it. The loops that may run forever are \<open>partial_function\<close>s into
  \<open>option\<close>: the polling loops of \<open>Dequeue\<close> (\<open>mem_poll\<close>, \<open>redis_poll\<close>), proved to return
  when the clock passes the deadline, and the cursor loop of \<open>redis_GetStats\<close>, which ends when the
  server does. No definition needs fuel. Code outside the repository (encoding/json, the YAML package, the
  Redis client, the file system, the environment, the workers of the embedding program) is an argument.

  \<^bold>\<open>Grain of the system.\<close> A step of \<open>sys_step\<close> makes at most one call of the broker: a client's
  enqueue, a poll, the hand-over of a job with its start, the recording of an outcome, the storing of a failed
  job, an acknowledgement, the fetching of due or orphaned jobs, taking a due job out of the retry set, putting
  it into its queue, rescuing it when that failed, moving an orphaned job, and the calls of the fetcher's
  shutdown branch. The run of a handler is one step, and so is the polling loop of a \<open>Dequeue\<close>: a job enqueued
  while it sleeps is seen by the next poll. The metrics loop takes an event, runs its handler, or ends. A handler
  may also never return (the record \<open>returns\<close> says which calls do), and then makes no step; a panic that
  escapes the middlewares ends the process and is excluded by the recovery middleware. The components
  \<open>s_accepted\<close>, \<open>s_done\<close>, \<open>s_acked\<close>, \<open>s_unseen\<close> and \<open>s_lost\<close> of the state are a history
  that no step reads. Because a failed job is stored before it is acknowledged, it can be dequeued again in
  between and the late \<open>Ack\<close> then takes the new lease: the invariant counts such a job as in flight.

  \<^bold>\<open>Not modelled.\<close> The no-op loggers, which have empty methods (a missing logger is a flag); the
  example program \<^verbatim>\<open>examples/run/main.go\<close>, which only calls the API; the names \<^verbatim>\<open>crank.go\<close>
  re-exports, which are the definitions they alias; the tests.
\<close>

end
